theory Spec2Isabelle
  imports Main "HOL-Library.Word" "HOL-Library.Multiset"
begin

section \<open>Data model of the disk block cache\<close>

text \<open>
  Shallow embedding of \<^verbatim>\<open>block/disk_block_cache.go\<close> and of the tree-summing routine of
  \<^verbatim>\<open>internal/workshare/workshare_test.go\<close>.

  Go's \<^verbatim>\<open>[]byte\<close> is a list of 8-bit words, \<^verbatim>\<open>int64\<close> a 64-bit word read with
  \<open>sint\<close>. A Go function returning \<^verbatim>\<open>(T, error)\<close> returns a pair whose second component is
  \<open>None\<close> for \<^verbatim>\<open>nil\<close>; a \<^verbatim>\<open>nil\<close> slice is the empty list. A run-time panic is a
  value of its own.
\<close>

type_synonym byte = "8 word"
type_synonym int64 = "64 word"

datatype error =
    ErrBlockNotFound            \<comment> \<open>\<^verbatim>\<open>storage.ErrBlockNotFound\<close>\<close>
  | ErrBackend string           \<comment> \<open>any other error of the storage collaborator\<close>
  | ErrNotExist                 \<comment> \<open>an OS error for which \<^verbatim>\<open>os.IsNotExist\<close> holds\<close>
  | ErrIO                       \<comment> \<open>any other OS error\<close>
  | ErrOffsetOfBounds           \<comment> \<open>"offset of bounds (...)"\<close>
  | ErrLengthOfBounds           \<comment> \<open>"length of bounds (...)"\<close>
  | ErrTooShort                 \<comment> \<open>"invalid data - too short"\<close>
  | ErrSignatureLength          \<comment> \<open>"invalid signature length"\<close>
  | ErrCorrupted                \<comment> \<open>"invalid data - corrupted"\<close>
  | ErrUnmarshal                \<comment> \<open>"can't unmarshal cached list results: ..."\<close>
  | ErrMarshal                  \<comment> \<open>an error of \<^verbatim>\<open>json.Marshal\<close>\<close>

datatype 'a go = Return 'a | Panic

subsection \<open>applyOffsetAndLength\<close>

text \<open>
  Go's slice expressions on a slice \<open>b\<close>: \<^verbatim>\<open>b[lo:]\<close> panics unless \<open>0 \<le> lo \<le> len(b)\<close>,
  \<^verbatim>\<open>b[lo:hi]\<close> panics unless \<open>0 \<le> lo \<le> hi \<le> cap(b)\<close>. The capacity is taken to be the
  length: \<open>applyOffsetAndLength\<close> reaches the second form only with \<open>hi \<le> len(b)\<close>.
\<close>

definition goSliceFrom :: "'a list \<Rightarrow> int \<Rightarrow> 'a list go" where
  "goSliceFrom b lo =
     (if 0 \<le> lo \<and> lo \<le> int (length b) then Return (drop (nat lo) b) else Panic)"

definition goSlice :: "'a list \<Rightarrow> int \<Rightarrow> int \<Rightarrow> 'a list go" where
  "goSlice b lo hi =
     (if 0 \<le> lo \<and> lo \<le> hi \<and> hi \<le> int (length b)
      then Return (take (nat hi - nat lo) (drop (nat lo) b)) else Panic)"

definition len64 :: "'a list \<Rightarrow> int64" where
  \<comment> \<open>\<^verbatim>\<open>int64(len(b))\<close>\<close>
  "len64 b = word_of_nat (length b)"

definition applyOffsetAndLength ::
  "byte list \<Rightarrow> int64 \<Rightarrow> int64 \<Rightarrow> (byte list \<times> error option) go" where
  "applyOffsetAndLength b offset len =
     (if sint (len64 b) < sint offset then Return ([], Some ErrOffsetOfBounds)
      else if sint len < 0 then
        (case goSliceFrom b (sint offset) of
           Panic \<Rightarrow> Panic
         | Return s \<Rightarrow> Return (s, None))
      else if sint (len64 b) < sint (offset + len) then Return ([], Some ErrLengthOfBounds)
      else
        (case goSlice b (sint offset) (sint (offset + len)) of
           Panic \<Rightarrow> Panic
         | Return s \<Rightarrow> Return (s, None)))"

subsection \<open>HMAC utilities\<close>

text \<open>
  \<^verbatim>\<open>crypto/hmac\<close> and \<^verbatim>\<open>crypto/sha256\<close> are library code: the keyed tag function
  \<open>hm secret data\<close> (\<^verbatim>\<open>hmac.New(sha256.New, secret)\<close>, \<^verbatim>\<open>Write(data)\<close>, \<^verbatim>\<open>Sum(nil)\<close>) is a
  parameter. \<^verbatim>\<open>hmac.Equal\<close> is equality of byte strings.
\<close>

type_synonym hmacFn = "byte list \<Rightarrow> byte list \<Rightarrow> byte list"

definition sha256_Size :: nat where
  "sha256_Size = 32"

definition appendHMAC :: "hmacFn \<Rightarrow> byte list \<Rightarrow> byte list \<Rightarrow> byte list" where
  "appendHMAC hm secret data =
     (let validSignature = hm secret data
      in ([] @ data) @ validSignature)"

definition verifyHMAC :: "hmacFn \<Rightarrow> byte list \<Rightarrow> byte list \<Rightarrow> byte list \<times> error option" where
  "verifyHMAC hm secret b =
     (if length b < sha256_Size then ([], Some ErrTooShort)
      else
        let p = length b - sha256_Size;
            data = take p b;
            signature = drop p b;
            validSignature = hm secret data
        in if length signature \<noteq> length validSignature then ([], Some ErrSignatureLength)
           else if validSignature = signature then (data, None)
           else ([], Some ErrCorrupted))"

section \<open>The environment: file system, clock, storage collaborator\<close>

text \<open>
  The cache directory is an association list from file names (relative to the directory)
  to files, or \<open>None\<close> while the directory does not exist. File names are never cleaned
  (\<^verbatim>\<open>filepath.Join\<close> is concatenation): block identifiers are not empty and hold no path
  separators.
  The calls \<^verbatim>\<open>os.Open\<close>, \<^verbatim>\<open>Stat\<close>, \<^verbatim>\<open>ioutil.ReadAll\<close>, \<^verbatim>\<open>ioutil.WriteFile\<close>,
  \<^verbatim>\<open>os.MkdirAll\<close>, \<^verbatim>\<open>os.Rename\<close>, \<^verbatim>\<open>os.Remove\<close> and \<^verbatim>\<open>ioutil.ReadDir\<close> can fail for
  reasons outside the program; the world lists the faults in force.
\<close>

record diskFile =
  content :: "byte list"
  modTime :: int

record FileInfo =
  Name :: string
  Size :: int64
  ModTime :: int

datatype fault =
    OpenFault string
  | StatFault string
  | ReadFault string
  | WriteFault
  | MkdirFault
  | RenameFault
  | RemoveFault string
  | ReadDirFault

datatype backendCall =
    CallGetBlock string int64 int64
  | CallPutBlock string "byte list"
  | CallListIndexBlocks bool

record 'b world =
  dir :: "(string \<times> diskFile) list option"
  faults :: "fault list"
  clock :: int                       \<comment> \<open>\<^verbatim>\<open>time.Now()\<close>, in nanoseconds\<close>
  tmpName :: string                  \<comment> \<open>the name \<^verbatim>\<open>tmp-<UnixNano>.<rand.Int63>.cached\<close> of the next temporary file\<close>
  backend :: 'b                      \<comment> \<open>the state of the storage collaborator\<close>
  calls :: "backendCall list"        \<comment> \<open>the calls made to the storage collaborator, in order\<close>
  logs :: "string list"
  lastTotalSizeBytes :: int64        \<comment> \<open>the field \<^verbatim>\<open>c.lastTotalSizeBytes\<close>\<close>

record Info =
  BlockID :: string
  Length :: int
  Timestamp :: int

record BlockMetadata =
  mBlockID :: string
  mLength :: int
  mTimeStamp :: int
  mError :: "error option"

record 'b storage =
  stGetBlock :: "'b \<Rightarrow> string \<Rightarrow> int64 \<Rightarrow> int64 \<Rightarrow> byte list \<times> error option"
  stPutBlock :: "'b \<Rightarrow> string \<Rightarrow> byte list \<Rightarrow> error option \<times> 'b"
  stListBlocks :: "'b \<Rightarrow> string \<Rightarrow> BlockMetadata list"

text \<open>
  The struct \<^verbatim>\<open>diskBlockCache\<close> (its directory is the one of the world, its mutable field
  \<^verbatim>\<open>lastTotalSizeBytes\<close> lives in the world). Sizes of files, the budget and the running
  total of a sweep are \<^verbatim>\<open>int64\<close>, compared as signed numbers; the addition wraps around.
\<close>

record 'b diskBlockCache =
  st :: "'b storage"
  maxSizeBytes :: int64
  listCacheDuration :: int
  hmacSecret :: "byte list"

text \<open>
  What the file uses and does not define: library functions (\<^verbatim>\<open>crypto/hmac\<close>,
  \<^verbatim>\<open>encoding/json\<close>, \<^verbatim>\<open>sort.Slice\<close>) and three names of package \<^verbatim>\<open>block\<close> declared in
  other files (\<^verbatim>\<open>listIndexBlocksFromStorage\<close>, \<^verbatim>\<open>getCompactedTimestamp\<close>, of which only the
  \<^verbatim>\<open>ok\<close> result is used, and \<^verbatim>\<open>indexBlockPrefix\<close>). They are parameters.
\<close>

record 'b lib =
  hmacSHA256 :: hmacFn
  jsonMarshal :: "Info list \<Rightarrow> byte list option"
  jsonUnmarshal :: "byte list \<Rightarrow> Info list option"
  sortSlice :: "(FileInfo \<Rightarrow> FileInfo \<Rightarrow> bool) \<Rightarrow> FileInfo list \<Rightarrow> FileInfo list"
  listIndexBlocksFromStorage :: "'b \<Rightarrow> bool \<Rightarrow> Info list \<times> error option"
  getCompactedTimestamp :: "string \<Rightarrow> bool"
  indexBlockPrefix :: string

definition logf :: "string \<Rightarrow> 'b world \<Rightarrow> 'b world" where
  "logf msg w = w\<lparr>logs := logs w @ [msg]\<rparr>"

definition fsPut :: "(string \<times> diskFile) list \<Rightarrow> string \<Rightarrow> diskFile \<Rightarrow> (string \<times> diskFile) list" where
  "fsPut fs k v = (k, v) # filter (\<lambda>e. fst e \<noteq> k) fs"

definition fsDel :: "(string \<times> diskFile) list \<Rightarrow> string \<Rightarrow> (string \<times> diskFile) list" where
  "fsDel fs k = filter (\<lambda>e. fst e \<noteq> k) fs"

definition lookupFile :: "'b world \<Rightarrow> string \<Rightarrow> diskFile option" where
  "lookupFile w fn = (case dir w of None \<Rightarrow> None | Some fs \<Rightarrow> map_of fs fn)"

definition osOpen :: "'b world \<Rightarrow> string \<Rightarrow> error + (string \<times> diskFile)" where
  "osOpen w fn =
     (case lookupFile w fn of
        None \<Rightarrow> Inl ErrNotExist
      | Some f \<Rightarrow> if OpenFault fn \<in> set (faults w) then Inl ErrIO else Inr (fn, f))"

definition fileInfo :: "string \<times> diskFile \<Rightarrow> FileInfo" where
  "fileInfo e = \<lparr>Name = fst e, Size = len64 (content (snd e)), ModTime = modTime (snd e)\<rparr>"

definition fStat :: "'b world \<Rightarrow> string \<times> diskFile \<Rightarrow> error + FileInfo" where
  "fStat w f = (if StatFault (fst f) \<in> set (faults w) then Inl ErrIO else Inr (fileInfo f))"

definition osReadAll :: "'b world \<Rightarrow> string \<times> diskFile \<Rightarrow> error + byte list" where
  "osReadAll w f = (if ReadFault (fst f) \<in> set (faults w) then Inl ErrIO else Inr (content (snd f)))"

definition osReadFile :: "'b world \<Rightarrow> string \<Rightarrow> byte list \<times> error option" where
  \<comment> \<open>\<^verbatim>\<open>ioutil.ReadFile\<close>: open, then read all\<close>
  "osReadFile w fn =
     (case osOpen w fn of
        Inl e \<Rightarrow> ([], Some e)
      | Inr f \<Rightarrow> (case osReadAll w f of Inl e \<Rightarrow> ([], Some e) | Inr b \<Rightarrow> (b, None)))"

definition osWriteFile :: "'b world \<Rightarrow> string \<Rightarrow> byte list \<Rightarrow> 'b world \<times> error option" where
  "osWriteFile w fn contents =
     (if WriteFault \<in> set (faults w) then (w, Some ErrIO)
      else case dir w of
        None \<Rightarrow> (w, Some ErrNotExist)
      | Some fs \<Rightarrow> (w\<lparr>dir := Some (fsPut fs fn \<lparr>content = contents, modTime = clock w\<rparr>)\<rparr>, None))"

definition osMkdirAll :: "'b world \<Rightarrow> 'b world" where
  "osMkdirAll w =
     (if MkdirFault \<in> set (faults w) then w
      else case dir w of None \<Rightarrow> w\<lparr>dir := Some []\<rparr> | Some fs \<Rightarrow> w)"

definition osRename :: "'b world \<Rightarrow> string \<Rightarrow> string \<Rightarrow> 'b world \<times> error option" where
  "osRename w old new =
     (if RenameFault \<in> set (faults w) then (w, Some ErrIO)
      else case dir w of
        None \<Rightarrow> (w, Some ErrNotExist)
      | Some fs \<Rightarrow>
          (case map_of fs old of
             None \<Rightarrow> (w, Some ErrNotExist)
           | Some f \<Rightarrow> (w\<lparr>dir := Some (fsPut (fsDel fs old) new f)\<rparr>, None)))"

definition osRemove :: "'b world \<Rightarrow> string \<Rightarrow> 'b world \<times> error option" where
  "osRemove w fn =
     (if RemoveFault fn \<in> set (faults w) then (w, Some ErrIO)
      else case dir w of
        None \<Rightarrow> (w, Some ErrNotExist)
      | Some fs \<Rightarrow>
          (case map_of fs fn of
             None \<Rightarrow> (w, Some ErrNotExist)
           | Some f \<Rightarrow> (w\<lparr>dir := Some (fsDel fs fn)\<rparr>, None)))"

definition osReadDir :: "'b world \<Rightarrow> error + FileInfo list" where
  "osReadDir w =
     (if ReadDirFault \<in> set (faults w) then Inl ErrIO
      else case dir w of None \<Rightarrow> Inl ErrNotExist | Some fs \<Rightarrow> Inr (map fileInfo fs))"

section \<open>The cache operations\<close>

definition cachedSuffix :: string where
  "cachedSuffix = ''.cached''"

definition cachedItemName :: "string \<Rightarrow> string" where
  "cachedItemName name = name @ cachedSuffix"

definition HasSuffix :: "string \<Rightarrow> string \<Rightarrow> bool" where
  \<comment> \<open>\<^verbatim>\<open>strings.HasSuffix\<close>\<close>
  "HasSuffix s suffix =
     (length suffix \<le> length s \<and> drop (length s - length suffix) s = suffix)"

definition renameTemp :: "string \<Rightarrow> string \<Rightarrow> 'b world \<Rightarrow> 'b world \<times> error option" where
  \<comment> \<open>the end of \<open>writeFileAtomic\<close>: rename, and remove the temporary file on failure\<close>
  "renameTemp tn fname w =
     (case osRename w tn fname of
        (w1, Some e) \<Rightarrow> (fst (osRemove w1 tn), Some e)
      | (w1, None) \<Rightarrow> (w1, None))"

definition writeFileAtomic :: "string \<Rightarrow> byte list \<Rightarrow> 'b world \<Rightarrow> 'b world \<times> error option" where
  "writeFileAtomic fname contents w =
     (let tn = tmpName w
      in case osWriteFile w tn contents of
           (w1, Some e) \<Rightarrow>
             if e \<noteq> ErrNotExist then (w1, Some e)
             else (case osWriteFile (osMkdirAll w1) tn contents of
                     (w2, Some e2) \<Rightarrow> (w2, Some e2)
                   | (w2, None) \<Rightarrow> renameTemp tn fname w2)
         | (w1, None) \<Rightarrow> renameTemp tn fname w1)"

definition getBlockFromStorage ::
  "'b lib \<Rightarrow> 'b diskBlockCache \<Rightarrow> string \<Rightarrow> string \<Rightarrow> int64 \<Rightarrow> int64 \<Rightarrow> 'b world
   \<Rightarrow> (byte list \<times> error option) \<times> 'b world" where
  \<comment> \<open>the second half of \<open>getBlock\<close>, from the call of \<^verbatim>\<open>c.st.GetBlock\<close> on\<close>
  "getBlockFromStorage L c fn physicalBlockID offset len w =
     (let r = stGetBlock (st c) (backend w) physicalBlockID offset len;
          w1 = w\<lparr>calls := calls w @ [CallGetBlock physicalBlockID offset len]\<rparr>
      in if snd r = Some ErrBlockNotFound then (([], snd r), w1)
         else if snd r = None then
           (case writeFileAtomic fn (appendHMAC (hmacSHA256 L) (hmacSecret c) (fst r)) w1 of
              (w2, Some e) \<Rightarrow> (r, logf ''warning: unable to write file'' w2)
            | (w2, None) \<Rightarrow> (r, w2))
         else (r, w1))"

definition getBlock ::
  "'b lib \<Rightarrow> 'b diskBlockCache \<Rightarrow> string \<Rightarrow> string \<Rightarrow> int64 \<Rightarrow> int64 \<Rightarrow> 'b world
   \<Rightarrow> (byte list \<times> error option) \<times> 'b world" where
  "getBlock L c virtualBlockID physicalBlockID offset len w =
     (let fn = cachedItemName virtualBlockID
      in case osReadFile w fn of
           (b, None) \<Rightarrow>
             (case verifyHMAC (hmacSHA256 L) (hmacSecret c) b of
                (b', None) \<Rightarrow> ((b', None), w)
              | (b', Some e) \<Rightarrow>
                  getBlockFromStorage L c fn physicalBlockID offset len
                    (logf ''warning: malformed block'' w))
         | (b, Some e) \<Rightarrow>
             getBlockFromStorage L c fn physicalBlockID offset len
               (if e \<noteq> ErrNotExist then logf ''warning: unable to read blockCache file'' w else w))"

definition deleteListCache :: "'b world \<Rightarrow> 'b world" where
  "deleteListCache w =
     (let w0 = logf ''deleting list cache'' w;
          w1 = fst (osRemove w0 (cachedItemName ''list-full''));
          w2 = fst (osRemove w1 (cachedItemName ''list-active''))
      in w2)"

definition putBlock ::
  "'b lib \<Rightarrow> 'b diskBlockCache \<Rightarrow> string \<Rightarrow> byte list \<Rightarrow> 'b world \<Rightarrow> error option \<times> 'b world" where
  "putBlock L c blockID data w =
     (let r = stPutBlock (st c) (backend w) blockID data;
          w1 = w\<lparr>backend := snd r, calls := calls w @ [CallPutBlock blockID data]\<rparr>
      in case fst r of
           Some e \<Rightarrow> (Some e, w1)
         | None \<Rightarrow>
             (let w2 = fst (writeFileAtomic (blockID @ cachedSuffix)
                              (appendHMAC (hmacSHA256 L) (hmacSecret c) data) w1);
                  w3 = deleteListCache w2
              in (None, w3)))"

definition readBlocksFromCacheFile ::
  "'b lib \<Rightarrow> 'b diskBlockCache \<Rightarrow> string \<times> diskFile \<Rightarrow> 'b world \<Rightarrow> Info list \<times> error option" where
  "readBlocksFromCacheFile L c f w =
     (case osReadAll w f of
        Inl e \<Rightarrow> ([], Some e)
      | Inr data \<Rightarrow>
          (case verifyHMAC (hmacSHA256 L) (hmacSecret c) data of
             (d, Some e) \<Rightarrow> ([], Some e)
           | (d, None) \<Rightarrow>
               (case jsonUnmarshal L d of
                  None \<Rightarrow> ([], Some ErrUnmarshal)
                | Some blocks \<Rightarrow> (blocks, None))))"

definition listIndexBlocksFromSource ::
  "'b lib \<Rightarrow> 'b diskBlockCache \<Rightarrow> bool \<Rightarrow> string \<Rightarrow> 'b world
   \<Rightarrow> (Info list \<times> error option) \<times> 'b world" where
  \<comment> \<open>the second half of \<open>listIndexBlocks\<close>, from "listing index blocks from source" on\<close>
  "listIndexBlocksFromSource L c full cachedListFile w =
     (let w0 = logf ''listing index blocks from source'' w;
          r = listIndexBlocksFromStorage L (backend w0) full;
          w1 = w0\<lparr>calls := calls w0 @ [CallListIndexBlocks full]\<rparr>
      in if snd r = None then
           (let w2 = logf ''saving index blocks to cache'' w1
            in case jsonMarshal L (fst r) of
                 None \<Rightarrow> (r, w2)
               | Some data \<Rightarrow>
                   (case writeFileAtomic cachedListFile
                           (appendHMAC (hmacSHA256 L) (hmacSecret c) data) w2 of
                      (w3, Some e) \<Rightarrow> (r, logf ''warning: can't save list'' w3)
                    | (w3, None) \<Rightarrow> (r, w3)))
         else (r, w1))"

definition listIndexBlocks ::
  "'b lib \<Rightarrow> 'b diskBlockCache \<Rightarrow> bool \<Rightarrow> 'b world \<Rightarrow> (Info list \<times> error option) \<times> 'b world" where
  "listIndexBlocks L c full w =
     (let cachedListFile =
            (if full then cachedItemName ''list-full'' else cachedItemName ''list-active'')
      in case osOpen w cachedListFile of
           Inr f \<Rightarrow>
             (case fStat w f of
                Inr s \<Rightarrow>
                  (let expirationTime = ModTime s + listCacheDuration c
                   in if clock w < expirationTime
                      then (let w0 = logf ''listing index blocks from cache'' w
                            in (readBlocksFromCacheFile L c f w0, w0))
                      else listIndexBlocksFromSource L c full cachedListFile w)
              | Inl e \<Rightarrow> listIndexBlocksFromSource L c full cachedListFile w)
         | Inl e \<Rightarrow>
             listIndexBlocksFromSource L c full cachedListFile
               (logf ''unable to open cache file'' w))"

subsection \<open>readBlocksFromSource\<close>

text \<open>
  The channel of \<^verbatim>\<open>ListBlocks\<close> is the finite list of the entries it delivers before it is
  closed. The loop carries \<open>blocks\<close> and \<open>numCompactions\<close>.
\<close>

definition toInfo :: "BlockMetadata \<Rightarrow> Info" where
  "toInfo e = \<lparr>BlockID = mBlockID e, Length = mLength e, Timestamp = mTimeStamp e\<rparr>"

fun readLoop ::
  "(string \<Rightarrow> bool) \<Rightarrow> int \<Rightarrow> BlockMetadata list \<Rightarrow> Info list \<Rightarrow> int \<Rightarrow> Info list \<times> error option" where
  "readLoop isCompacted maxCompactions [] blocks numCompactions = (blocks, None)"
| "readLoop isCompacted maxCompactions (e # ch) blocks numCompactions =
     (case mError e of
        Some er \<Rightarrow> ([], Some er)
      | None \<Rightarrow>
          (let blocks' = blocks @ [toInfo e]
           in if isCompacted (mBlockID e) then
                (let numCompactions' = numCompactions + 1
                 in if numCompactions' \<ge> maxCompactions then (blocks', None)
                    else readLoop isCompacted maxCompactions ch blocks' numCompactions')
              else readLoop isCompacted maxCompactions ch blocks' numCompactions))"

definition readBlocksFromSource ::
  "'b lib \<Rightarrow> 'b diskBlockCache \<Rightarrow> int \<Rightarrow> 'b world \<Rightarrow> Info list \<times> error option" where
  "readBlocksFromSource L c maxCompactions w =
     readLoop (getCompactedTimestamp L) maxCompactions
       (stListBlocks (st c) (backend w) (indexBlockPrefix L)) [] 0"

subsection \<open>sweepDirectory\<close>

fun sweepLoop :: "int64 \<Rightarrow> FileInfo list \<Rightarrow> int64 \<Rightarrow> 'b world \<Rightarrow> 'b world \<times> int64" where
  "sweepLoop maxSize [] totalRetainedSize w = (w, totalRetainedSize)"
| "sweepLoop maxSize (it # items) totalRetainedSize w =
     (if \<not> HasSuffix (Name it) cachedSuffix then sweepLoop maxSize items totalRetainedSize w
      else if sint totalRetainedSize > sint maxSize then
        (case osRemove w (Name it) of
           (w1, Some e) \<Rightarrow> sweepLoop maxSize items totalRetainedSize (logf ''warning: unable to remove'' w1)
         | (w1, None) \<Rightarrow> sweepLoop maxSize items totalRetainedSize w1)
      else sweepLoop maxSize items (totalRetainedSize + Size it) w)"

definition sweepDirectory :: "'b lib \<Rightarrow> 'b diskBlockCache \<Rightarrow> 'b world \<Rightarrow> error option \<times> 'b world" where
  "sweepDirectory L c w =
     (if maxSizeBytes c = 0 then (None, w)
      else case osReadDir w of
        Inl e \<Rightarrow> if e = ErrNotExist then (None, w) else (Some e, w)
      | Inr items \<Rightarrow>
          (let sorted_items = sortSlice L (\<lambda>a b. ModTime a > ModTime b) items;
               r = sweepLoop (maxSizeBytes c) sorted_items 0 w
           in (None, (fst r)\<lparr>lastTotalSizeBytes := snd r\<rparr>)))"

text \<open>
  Two notions for stating what a sweep retains: the entries of a directory listing that the
  loop looks at (those with the cache suffix), and the cumulative size of a list of entries,
  as a mathematical integer (the sum of the signed values of the sizes, without wrap-around).
\<close>

definition cacheEntries :: "FileInfo list \<Rightarrow> FileInfo list" where
  "cacheEntries items = filter (\<lambda>it. HasSuffix (Name it) cachedSuffix) items"

definition totalSize :: "FileInfo list \<Rightarrow> int" where
  "totalSize items = sum_list (map (\<lambda>it. sint (Size it)) items)"

text \<open>The same sum as the loop computes it: in \<^verbatim>\<open>int64\<close>, wrapping around.\<close>

definition runningTotal :: "FileInfo list \<Rightarrow> int64" where
  "runningTotal items = sum_list (map Size items)"

section \<open>The tree sum of the work-sharing test\<close>

datatype treeNode = TreeNode (nvalue: int) (children: "treeNode list")

function buildTree :: "int \<Rightarrow> treeNode" where
  "buildTree level =
     (if level \<le> 0 then TreeNode 1 []
      else TreeNode 1 (map (\<lambda>i. buildTree (level - 1)) [0..<nat level]))"
  by pat_completeness auto
termination
  by (relation "measure nat") auto

declare buildTree.simps [simp del]

text \<open>The sum of the values of all nodes of a tree: what the tree sum is compared with.\<close>

fun treeSum :: "treeNode \<Rightarrow> int" where
  "treeSum (TreeNode v cs) = v + sum_list (map treeSum cs)"

record computeTreeSumRequest =
  input :: treeNode
  result :: int
  err :: "error option"

text \<open>
  The package \<^verbatim>\<open>workshare\<close> itself is not among the sources; only its test is. Everything
  that is not determined by the program is collected in a schedule: the worker capacity
  given to \<^verbatim>\<open>NewPool\<close>, the number of busy workers that the call of \<^verbatim>\<open>CanShareWork\<close> for
  a child observes (the child is named by its path from the root), and the order in which
  \<^verbatim>\<open>Wait\<close> hands back the requests of a group. Tasks share no data: a task writes its own
  request and nothing else, so the request that \<^verbatim>\<open>Wait\<close> hands back is the one that running
  the task at the point of its submission gives.
\<close>

record schedule =
  capacity :: int
  liveWorkers :: "nat list \<Rightarrow> nat"
  waitOrder :: "computeTreeSumRequest list \<Rightarrow> computeTreeSumRequest list"

definition CanShareWork :: "schedule \<Rightarrow> nat list \<Rightarrow> bool" where
  \<comment> \<open>Modelled from the spec: \<^verbatim>\<open>AsyncGroup.CanShareWork\<close> is missing from the sources. It is
      "true only while the live worker count is below capacity; always false when capacity
      is 0"; a capacity below 0 never offloads either.\<close>
  "CanShareWork sch p = (int (liveWorkers sch p) < capacity sch)"

definition ActiveWorkers :: "schedule \<Rightarrow> nat list \<Rightarrow> nat" where
  \<comment> \<open>Modelled from the spec: \<^verbatim>\<open>Pool.ActiveWorkers\<close> is missing from the sources. It is the
      "live count of busy workers"; read inside a dispatched task it counts the worker
      running that task on top of the workers its submitter observed.\<close>
  "ActiveWorkers sch p = Suc (liveWorkers sch p)"

definition Wait :: "schedule \<Rightarrow> computeTreeSumRequest list \<Rightarrow> computeTreeSumRequest list" where
  \<comment> \<open>Modelled from the spec: \<^verbatim>\<open>AsyncGroup.Wait\<close> is missing from the sources. It "blocks the
      calling thread until every task submitted through this group has finished, then
      returns all request values; relative order among returned values is unspecified".\<close>
  "Wait sch cs = waitOrder sch cs"

fun joinLoop :: "computeTreeSumRequest list \<Rightarrow> int \<Rightarrow> int \<times> error option" where
  "joinLoop [] tot = (tot, None)"
| "joinLoop (twr # reqs) tot =
     (case err twr of
        Some e \<Rightarrow> (0, Some e)
      | None \<Rightarrow> joinLoop reqs (tot + result twr))"

definition RunAsync ::
  "computeTreeSumRequest list \<Rightarrow> computeTreeSumRequest go \<Rightarrow> computeTreeSumRequest list go" where
  \<comment> \<open>Modelled from the spec: \<^verbatim>\<open>AsyncGroup.RunAsync\<close> is missing from the sources. It "submits
      one task to the pool", and the task's completion happens before the return of \<^verbatim>\<open>Wait\<close>:
      the second argument is what running the dispatch function on the request gives, and
      the request joins the requests \<open>cs\<close> of the group as the dispatch function leaves it.
      A panic on a worker ends the process.\<close>
  "RunAsync cs task = (case task of Panic \<Rightarrow> Panic | Return req \<Rightarrow> Return (cs @ [req]))"

text \<open>
  \<open>childLoop\<close> is the first loop of \<open>computeTreeSum\<close>, carrying the index of the child, the
  running total \<open>tot\<close> and the requests of the group \<open>cs\<close>; \<open>joinLoop\<close> above is its second
  loop. The dispatch function takes the input of its request and returns the request as it
  leaves it.
\<close>

function computeTreeSum :: "schedule \<Rightarrow> nat list \<Rightarrow> treeNode \<Rightarrow> (int \<times> error option) go"
  and childLoop ::
    "schedule \<Rightarrow> nat list \<Rightarrow> nat \<Rightarrow> treeNode list \<Rightarrow> int \<Rightarrow> computeTreeSumRequest list
     \<Rightarrow> (int \<times> error option) go"
  and dispatchComputeTreeSumRequest ::
    "schedule \<Rightarrow> nat list \<Rightarrow> treeNode \<Rightarrow> computeTreeSumRequest go"
where
  "computeTreeSum sch p n = childLoop sch p 0 (children n) (nvalue n) []"
| "childLoop sch p i [] tot cs = Return (joinLoop (Wait sch cs) tot)"
| "childLoop sch p i (child # rest) tot cs =
     (if CanShareWork sch (p @ [i]) then
        (case RunAsync cs (dispatchComputeTreeSumRequest sch (p @ [i]) child) of
           Panic \<Rightarrow> Panic
         | Return cs' \<Rightarrow> childLoop sch p (Suc i) rest tot cs')
      else
        (case computeTreeSum sch (p @ [i]) child of
           Panic \<Rightarrow> Panic
         | Return (chtot, Some e) \<Rightarrow> Return (0, Some e)
         | Return (chtot, None) \<Rightarrow> childLoop sch p (Suc i) rest (tot + chtot) cs))"
| "dispatchComputeTreeSumRequest sch p inp =
     (if ActiveWorkers sch p = 0 then Panic
      else case computeTreeSum sch p inp of
        Panic \<Rightarrow> Panic
      | Return (res, Some e) \<Rightarrow> Return \<lparr>input = inp, result = 0, err = Some e\<rparr>
      | Return (res, None) \<Rightarrow> Return \<lparr>input = inp, result = res, err = None\<rparr>)"
  by pat_completeness auto
termination
proof (relation "measure (\<lambda>x. case x of
        Inl (sch, p, n) \<Rightarrow> 2 * size n
      | Inr (Inl (sch, p, i, ns, tot, cs)) \<Rightarrow> 2 * size_list size ns
      | Inr (Inr (sch, p, inp)) \<Rightarrow> 2 * size inp + 1)", goal_cases)
  case (2 sch p n)
  then show ?case by (cases n) simp
qed auto

section \<open>Concrete instances\<close>

text \<open>
  A small storage collaborator, library and cache on which the theorems below are
  instantiated. The tag function and the codec are toy functions with the one property of
  the library functions that the program relies on (tags of 32 bytes).
\<close>

definition exampleHmac :: hmacFn where
  "exampleHmac k d = replicate 32 (sum_list (k @ d))"

definition exampleListing :: "BlockMetadata list" where
  "exampleListing =
     [\<lparr>mBlockID = ''Pa'', mLength = 1, mTimeStamp = 10, mError = None\<rparr>,
      \<lparr>mBlockID = ''Pc1'', mLength = 2, mTimeStamp = 20, mError = None\<rparr>,
      \<lparr>mBlockID = ''Pb'', mLength = 3, mTimeStamp = 30, mError = None\<rparr>,
      \<lparr>mBlockID = ''Pc2'', mLength = 4, mTimeStamp = 40, mError = None\<rparr>,
      \<lparr>mBlockID = ''Pd'', mLength = 5, mTimeStamp = 50, mError = None\<rparr>]"

definition exampleStorage :: "unit storage" where
  "exampleStorage =
     \<lparr>stGetBlock = (\<lambda>b i off len.
        if i = ''missing'' then ([], Some ErrBlockNotFound) else ([1, 2, 3], None)),
      stPutBlock = (\<lambda>b i d. (if i = ''bad'' then Some (ErrBackend ''put failed'') else None, b)),
      stListBlocks = (\<lambda>b pre. exampleListing)\<rparr>"

definition exampleLib :: "unit lib" where
  "exampleLib =
     \<lparr>hmacSHA256 = exampleHmac,
      jsonMarshal = (\<lambda>bs. Some (map (\<lambda>b. word_of_int (Length b)) bs)),
      jsonUnmarshal = (\<lambda>d. if 255 \<in> set d then None
         else Some (map (\<lambda>x. \<lparr>BlockID = ''P'', Length = uint x, Timestamp = 0\<rparr>) d)),
      sortSlice = (\<lambda>less xs. sort_key (\<lambda>x. - ModTime x) xs),
      listIndexBlocksFromStorage =
        (\<lambda>b full. ([\<lparr>BlockID = ''P'', Length = 5, Timestamp = 0\<rparr>], None)),
      getCompactedTimestamp = (\<lambda>i. take 2 i = ''Pc''),
      indexBlockPrefix = ''P''\<rparr>"

definition exampleCache :: "unit diskBlockCache" where
  "exampleCache =
     \<lparr>st = exampleStorage, maxSizeBytes = 10, listCacheDuration = 100, hmacSecret = [7, 9]\<rparr>"

definition exampleWorld :: "unit world" where
  "exampleWorld =
     \<lparr>dir = Some [], faults = [], clock = 50, tmpName = ''tmp-50.1.cached'', backend = (),
      calls = [], logs = [], lastTotalSizeBytes = 0\<rparr>"

text \<open>A world whose cache holds one block, signed, and one whose cache holds a listing.\<close>

definition blockWorld :: "unit world" where
  "blockWorld =
     exampleWorld\<lparr>dir := Some [(''blk.cached'',
        \<lparr>content = appendHMAC exampleHmac [7, 9] [1, 2, 3, 4, 5], modTime = 10\<rparr>)]\<rparr>"

definition listWorld :: "unit world" where
  "listWorld =
     exampleWorld\<lparr>dir := Some [(''list-full.cached'',
        \<lparr>content = appendHMAC exampleHmac [7, 9] [4, 2], modTime = 10\<rparr>)]\<rparr>"

text \<open>
  A world whose listing cache file is fresh and signed, with a payload that the codec of
  \<open>exampleLib\<close> rejects.
\<close>

definition undecodableListWorld :: "unit world" where
  "undecodableListWorld =
     exampleWorld\<lparr>dir := Some [(''list-full.cached'',
        \<lparr>content = appendHMAC exampleHmac [7, 9] [255], modTime = 10\<rparr>)]\<rparr>"

text \<open>A world whose listing cache file is fresh and is not signed: three bytes only.\<close>

definition corruptListWorld :: "unit world" where
  "corruptListWorld =
     exampleWorld\<lparr>dir := Some [(''list-full.cached'', \<lparr>content = [1, 2, 3], modTime = 10\<rparr>)]\<rparr>"

text \<open>
  A cache directory with three cache files of 8 bytes each and one other file, swept with
  the budget of 10 bytes of \<open>exampleCache\<close>.
\<close>

definition sweepFiles :: "(string \<times> diskFile) list" where
  "sweepFiles =
     [(''b.cached'', \<lparr>content = replicate 8 0, modTime = 20\<rparr>),
      (''a.cached'', \<lparr>content = replicate 8 0, modTime = 30\<rparr>),
      (''notes.txt'', \<lparr>content = [1], modTime = 5\<rparr>),
      (''c.cached'', \<lparr>content = replicate 8 0, modTime = 10\<rparr>)]"

definition sweepWorld :: "unit world" where
  "sweepWorld = exampleWorld\<lparr>dir := Some sweepFiles\<rparr>"

section \<open>Properties of the HMAC utilities\<close>

text \<open>
  C4. For every payload, the empty payload included, \<open>verifyHMAC\<close> applied to
  \<open>appendHMAC payload\<close> under the same secret succeeds and returns exactly the payload.
  The tag function is the parameter; what the round trip uses of HMAC-SHA256 is that its
  tags are \<^verbatim>\<open>sha256.Size\<close> = 32 bytes long.
\<close>

theorem verifyHMAC_appendHMAC_roundtrip:
  assumes "length (hm secret payload) = sha256_Size"
  shows "verifyHMAC hm secret (appendHMAC hm secret payload) = (payload, None)"
  using assms by (simp add: verifyHMAC_def appendHMAC_def Let_def)

theorem verifyHMAC_appendHMAC_roundtrip_witness:
  "verifyHMAC (\<lambda>k d. replicate 32 (sum_list (k @ d))) [7, 9]
     (appendHMAC (\<lambda>k d. replicate 32 (sum_list (k @ d))) [7, 9] []) = ([], None)
   \<and> verifyHMAC (\<lambda>k d. replicate 32 (sum_list (k @ d))) [7, 9]
     (appendHMAC (\<lambda>k d. replicate 32 (sum_list (k @ d))) [7, 9] [1, 2, 3]) = ([1, 2, 3], None)"
proof -
  have "length ((\<lambda>k d. replicate 32 (sum_list (k @ d))) [7, 9 :: byte] (p :: byte list)) = sha256_Size"
    for p
    by (simp add: sha256_Size_def)
  then show ?thesis
    using verifyHMAC_appendHMAC_roundtrip
            [of "\<lambda>k d. replicate 32 (sum_list (k @ d))" "[7, 9]" "[]"]
          verifyHMAC_appendHMAC_roundtrip
            [of "\<lambda>k d. replicate 32 (sum_list (k @ d))" "[7, 9]" "[1, 2, 3]"]
    by blast
qed

section \<open>Properties of applyOffsetAndLength\<close>

lemma sint_len64:
  assumes "length b < 2 ^ 63"
  shows "sint (len64 b) = int (length b)"
proof -
  have "len64 b = word_of_int (int (length b))"
    by (simp add: len64_def)
  then have "sint (len64 b) = signed_take_bit 63 (int (length b))"
    by (simp only: sint_sbintrunc') simp
  moreover have "int (length b) < 2 ^ 63"
    using assms by (metis of_nat_less_numeral_power_cancel_iff)
  ultimately show ?thesis
    by (simp add: signed_take_bit_int_eq_self)
qed

lemma sint_add64:
  "0 \<le> sint (a :: int64) \<Longrightarrow> 0 \<le> sint b \<Longrightarrow> sint a + sint b < 2 ^ 63
   \<Longrightarrow> sint (a + b) = sint a + sint b"
  by (simp add: sint_word_add signed_take_bit_int_eq_self)

text \<open>
  C8, as the claim states it, fails: the slice helper is called \<open>applyOffsetAndLength\<close> in
  the source, and for a negative offset none of the four cases of the claim is what
  happens. With buffer \<open>[1, 2, 3]\<close>, offset \<open>-1\<close> and length \<open>-1\<close> the offset does not
  exceed the length of the buffer, the length is negative, and the slice expression
  \<^verbatim>\<open>b[offset:]\<close> panics: no suffix is returned.
\<close>

theorem applyOffsetAndLength_negative_offset_panics:
  "applyOffsetAndLength [1, 2, 3] (- 1) (- 1) = Panic"
  by (simp add: applyOffsetAndLength_def len64_def goSliceFrom_def)

text \<open>
  The sum \<open>offset + length\<close> is computed in \<^verbatim>\<open>int64\<close>: when it wraps around, the length check
  passes and the slice expression \<^verbatim>\<open>b[offset : offset+length]\<close> panics.
\<close>

lemma applyOffsetAndLength_overflow_panics:
  "applyOffsetAndLength [1, 2, 3] 1 0x7FFFFFFFFFFFFFFF = Panic"
  by (simp add: applyOffsetAndLength_def len64_def goSlice_def)

text \<open>
  C8, amended. For every buffer (a Go slice, so shorter than \<open>2^63\<close>), every offset that is
  not negative and every length such that \<open>offset + length\<close> does not overflow
  \<^verbatim>\<open>int64\<close>: if the offset exceeds the length of the buffer the result is the
  offset-out-of-bounds error; otherwise, if the length is negative, it is the suffix from
  the offset (empty when the offset equals the length of the buffer); otherwise, if
  \<open>offset + length\<close> exceeds the length of the buffer, it is the length-out-of-bounds
  error; otherwise it is exactly the window of \<open>length\<close> bytes from \<open>offset\<close>.
\<close>

theorem applyOffsetAndLength_in_range:
  assumes "length b < 2 ^ 63" and "0 \<le> sint offset"
    and "sint len < 0 \<or> sint offset + sint len < 2 ^ 63"
  shows "applyOffsetAndLength b offset len =
     (if int (length b) < sint offset then Return ([], Some ErrOffsetOfBounds)
      else if sint len < 0 then Return (drop (nat (sint offset)) b, None)
      else if int (length b) < sint offset + sint len then Return ([], Some ErrLengthOfBounds)
      else Return (take (nat (sint len)) (drop (nat (sint offset)) b), None))"
proof -
  note L = sint_len64 [OF assms(1)]
  show ?thesis
  proof (cases "sint len < 0")
    case True
    then show ?thesis
      using assms(2) by (simp add: applyOffsetAndLength_def L goSliceFrom_def)
  next
    case False
    then have S: "sint (offset + len) = sint offset + sint len"
      using assms(2,3) by (simp add: sint_add64)
    have "nat (sint offset + sint len) - nat (sint offset) = nat (sint len)"
      using False assms(2) by linarith
    then show ?thesis
      using False assms(2) by (simp add: applyOffsetAndLength_def L S goSlice_def)
  qed
qed

theorem applyOffsetAndLength_in_range_witness:
  "applyOffsetAndLength [1, 2, 3] 1 1 = Return ([2], None)
   \<and> applyOffsetAndLength [1, 2, 3] 3 (- 1) = Return ([], None)
   \<and> applyOffsetAndLength [1, 2, 3] 4 (- 1) = Return ([], Some ErrOffsetOfBounds)
   \<and> applyOffsetAndLength [1, 2, 3] 2 2 = Return ([], Some ErrLengthOfBounds)"
proof -
  have "applyOffsetAndLength [1, 2, 3] 1 1 = Return ([2], None)"
    by (subst applyOffsetAndLength_in_range) simp_all
  moreover have "applyOffsetAndLength [1, 2, 3] 3 (- 1) = Return ([], None)"
    by (subst applyOffsetAndLength_in_range) simp_all
  moreover have "applyOffsetAndLength [1, 2, 3] 4 (- 1) = Return ([], Some ErrOffsetOfBounds)"
    by (subst applyOffsetAndLength_in_range) simp_all
  moreover have "applyOffsetAndLength [1, 2, 3] 2 2 = Return ([], Some ErrLengthOfBounds)"
    by (subst applyOffsetAndLength_in_range) simp_all
  ultimately show ?thesis by simp
qed

section \<open>Properties of readBlocksFromSource\<close>

lemma BlockID_toInfo [simp]: "BlockID (toInfo e) = mBlockID e"
  by (simp add: toInfo_def)

lemma readLoop_prefix:
  "readLoop isC m es blocks n = (bs, None) \<Longrightarrow>
   \<exists>k\<le>length es. bs = blocks @ map toInfo (take k es) \<and>
      (\<forall>e\<in>set (take k es). mError e = None) \<and>
      (k < length es \<longrightarrow> 0 < k \<and> isC (mBlockID (es ! (k - 1))))"
proof (induction es arbitrary: blocks n)
  case Nil
  then show ?case by simp
next
  case (Cons e ch)
  from Cons.prems have noerr: "mError e = None"
    by (auto split: option.splits)
  show ?case
  proof (cases "isC (mBlockID e) \<and> n + 1 \<ge> m")
    case True
    with Cons.prems noerr have "bs = blocks @ [toInfo e]"
      by (simp add: Let_def)
    with True noerr show ?thesis
      by (intro exI[of _ 1]) simp
  next
    case False
    then obtain n' where rec: "readLoop isC m ch (blocks @ [toInfo e]) n' = (bs, None)"
      using Cons.prems noerr by (auto simp: Let_def split: if_splits)
    from Cons.IH[OF rec] obtain k where k: "k \<le> length ch"
      "bs = (blocks @ [toInfo e]) @ map toInfo (take k ch)"
      "\<forall>e\<in>set (take k ch). mError e = None"
      "k < length ch \<longrightarrow> 0 < k \<and> isC (mBlockID (ch ! (k - 1)))"
      by blast
    then show ?thesis using noerr
      by (intro exI[of _ "Suc k"]) auto
  qed
qed

lemma readLoop_count:
  "int (length (filter (\<lambda>b. isC (BlockID b)) (fst (readLoop isC m es blocks n))))
     \<le> int (length (filter (\<lambda>b. isC (BlockID b)) blocks)) + max 1 (m - n)"
proof (induction es arbitrary: blocks n)
  case Nil
  then show ?case by simp
next
  case (Cons e ch)
  show ?case
  proof (cases "mError e")
    case (Some er)
    then show ?thesis by simp
  next
    case None
    show ?thesis
    proof (cases "isC (mBlockID e)")
      case True
      show ?thesis
      proof (cases "n + 1 \<ge> m")
        case True
        with None \<open>isC (mBlockID e)\<close> show ?thesis by (simp add: Let_def)
      next
        case False
        with Cons.IH[of "blocks @ [toInfo e]" "n + 1"] None True show ?thesis
          by (simp add: Let_def)
      qed
    next
      case False
      with Cons.IH[of "blocks @ [toInfo e]" n] None show ?thesis
        by (simp add: Let_def)
    qed
  qed
qed

lemma readLoop_first_compaction:
  "m \<le> n + 1 \<Longrightarrow> \<forall>x\<in>set pre. \<not> isC (mBlockID x) \<Longrightarrow> isC (mBlockID e) \<Longrightarrow>
   \<forall>x\<in>set (pre @ [e]). mError x = None \<Longrightarrow>
   readLoop isC m (pre @ e # post) blocks n = (blocks @ map toInfo (pre @ [e]), None)"
  by (induction pre arbitrary: blocks) (auto simp: Let_def)

lemma readLoop_no_error:
  "\<forall>x\<in>set es. mError x = None \<Longrightarrow> snd (readLoop isC m es blocks n) = None"
  by (induction es arbitrary: blocks n) (auto simp: Let_def)

text \<open>
  C10. \<open>readBlocksFromSource\<close> appends an entry before it looks at the compaction counter.
  With \<open>es\<close> the listing of the storage collaborator: a list that is returned is a prefix of
  the listing, and when the scan stopped early its last entry is the compacted entry that
  stopped it; for \<open>maxCompactions < 1\<close> (0 included), when the listing holds a compacted
  entry and no entry up to the first compacted one carries an error, the result is exactly
  the entries up to and including the first compacted one; for \<open>maxCompactions \<ge> 1\<close> the
  result holds at most \<open>maxCompactions\<close> compacted entries. A list is returned whenever no
  entry of the listing carries an error.
\<close>

theorem readBlocksFromSource_compactions:
  assumes "stListBlocks (st c) (backend w) (indexBlockPrefix L) = es"
  shows "(\<forall>bs. readBlocksFromSource L c maxCompactions w = (bs, None) \<longrightarrow>
            (\<exists>k\<le>length es. bs = map toInfo (take k es) \<and>
               (k < length es \<longrightarrow> bs \<noteq> [] \<and> getCompactedTimestamp L (BlockID (last bs)))))
       \<and> (\<forall>pre e post. maxCompactions < 1 \<and> es = pre @ e # post \<and>
             (\<forall>x\<in>set pre. \<not> getCompactedTimestamp L (mBlockID x)) \<and>
             getCompactedTimestamp L (mBlockID e) \<and> (\<forall>x\<in>set (pre @ [e]). mError x = None) \<longrightarrow>
             readBlocksFromSource L c maxCompactions w = (map toInfo (pre @ [e]), None))
       \<and> (1 \<le> maxCompactions \<longrightarrow>
             int (length (filter (\<lambda>b. getCompactedTimestamp L (BlockID b))
                    (fst (readBlocksFromSource L c maxCompactions w)))) \<le> maxCompactions)
       \<and> ((\<forall>x\<in>set es. mError x = None) \<longrightarrow>
             snd (readBlocksFromSource L c maxCompactions w) = None)"
proof (intro conjI allI impI)
  fix bs
  assume "readBlocksFromSource L c maxCompactions w = (bs, None)"
  then have "readLoop (getCompactedTimestamp L) maxCompactions es [] 0 = (bs, None)"
    using assms by (simp add: readBlocksFromSource_def)
  from readLoop_prefix[OF this] obtain k where k: "k \<le> length es"
    "bs = map toInfo (take k es)"
    "k < length es \<longrightarrow> 0 < k \<and> getCompactedTimestamp L (mBlockID (es ! (k - 1)))"
    by auto
  have "bs \<noteq> [] \<and> getCompactedTimestamp L (BlockID (last bs))" if "k < length es"
  proof -
    from that k(3) have pos: "0 < k" and cmp: "getCompactedTimestamp L (mBlockID (es ! (k - 1)))"
      by auto
    from pos that have ne: "take k es \<noteq> []" by auto
    have "last (take k es) = take k es ! (k - 1)"
      using ne that by (simp add: last_conv_nth min_absorb2)
    then have "last (take k es) = es ! (k - 1)"
      using pos by simp
    with ne cmp k(2) show ?thesis
      by (simp add: last_map)
  qed
  with k(1,2) show "\<exists>k\<le>length es. bs = map toInfo (take k es) \<and>
      (k < length es \<longrightarrow> bs \<noteq> [] \<and> getCompactedTimestamp L (BlockID (last bs)))"
    by blast
next
  fix pre e post
  assume a: "maxCompactions < 1 \<and> es = pre @ e # post \<and>
             (\<forall>x\<in>set pre. \<not> getCompactedTimestamp L (mBlockID x)) \<and>
             getCompactedTimestamp L (mBlockID e) \<and> (\<forall>x\<in>set (pre @ [e]). mError x = None)"
  then have "readLoop (getCompactedTimestamp L) maxCompactions (pre @ e # post) [] 0
             = ([] @ map toInfo (pre @ [e]), None)"
    by (intro readLoop_first_compaction) auto
  with a show "readBlocksFromSource L c maxCompactions w = (map toInfo (pre @ [e]), None)"
    using assms by (simp add: readBlocksFromSource_def)
next
  assume "1 \<le> maxCompactions"
  with readLoop_count[of "getCompactedTimestamp L" maxCompactions es "[]" 0]
  show "int (length (filter (\<lambda>b. getCompactedTimestamp L (BlockID b))
           (fst (readBlocksFromSource L c maxCompactions w)))) \<le> maxCompactions"
    using assms by (simp add: readBlocksFromSource_def)
next
  assume "\<forall>x\<in>set es. mError x = None"
  then show "snd (readBlocksFromSource L c maxCompactions w) = None"
    using assms by (simp add: readBlocksFromSource_def readLoop_no_error)
qed

theorem readBlocksFromSource_compactions_witness:
  "readBlocksFromSource exampleLib exampleCache 0 exampleWorld
     = (map toInfo (take 2 exampleListing), None)
   \<and> int (length (filter (\<lambda>b. getCompactedTimestamp exampleLib (BlockID b))
        (fst (readBlocksFromSource exampleLib exampleCache 1 exampleWorld)))) \<le> 1"
proof -
  have es: "stListBlocks (st exampleCache) (backend exampleWorld) (indexBlockPrefix exampleLib)
            = exampleListing"
    by (simp add: exampleCache_def exampleStorage_def)
  note T0 = readBlocksFromSource_compactions[OF es, of 0]
  note T1 = readBlocksFromSource_compactions[OF es, of 1]
  note P = T0[THEN conjunct2, THEN conjunct1, rule_format,
              of "[exampleListing ! 0]" "exampleListing ! 1" "drop 2 exampleListing"]
  have "readBlocksFromSource exampleLib exampleCache 0 exampleWorld
          = (map toInfo ([exampleListing ! 0] @ [exampleListing ! 1]), None)"
    by (rule P) (simp add: exampleListing_def exampleLib_def)
  moreover have "map toInfo ([exampleListing ! 0] @ [exampleListing ! 1])
          = map toInfo (take 2 exampleListing)"
    by (simp add: exampleListing_def)
  moreover have "int (length (filter (\<lambda>b. getCompactedTimestamp exampleLib (BlockID b))
        (fst (readBlocksFromSource exampleLib exampleCache 1 exampleWorld)))) \<le> 1"
    using T1[THEN conjunct2, THEN conjunct2, THEN conjunct1] by simp
  ultimately show ?thesis
    by simp
qed

section \<open>Properties of the tree sum\<close>

lemma joinLoop_sum:
  "\<forall>r\<in>set rs. err r = None \<Longrightarrow> joinLoop rs tot = (tot + sum_list (map result rs), None)"
  by (induction rs arbitrary: tot) auto

lemma Wait_sum:
  assumes "mset (waitOrder sch cs) = mset cs" and "\<forall>r\<in>set cs. err r = None"
  shows "joinLoop (Wait sch cs) tot = (tot + sum_list (map result cs), None)"
proof -
  have "set (waitOrder sch cs) = set cs"
    using assms(1) by (rule mset_eq_setD)
  moreover have "sum_list (map result (waitOrder sch cs)) = sum_list (map result cs)"
    using assms(1) by (metis mset_map sum_mset_sum_list)
  ultimately show ?thesis
    using assms(2) by (simp add: Wait_def joinLoop_sum)
qed

lemma computeTreeSum_sum:
  "(\<forall>cs. mset (waitOrder sch cs) = mset cs) \<Longrightarrow>
     computeTreeSum sch p n = Return (treeSum n, None)"
  "(\<forall>cs. mset (waitOrder sch cs) = mset cs) \<Longrightarrow> \<forall>r\<in>set cs. err r = None \<Longrightarrow>
     childLoop sch p i ns tot cs =
       Return (tot + sum_list (map treeSum ns) + sum_list (map result cs), None)"
  "(\<forall>cs. mset (waitOrder sch cs) = mset cs) \<Longrightarrow>
     dispatchComputeTreeSumRequest sch p n =
       Return \<lparr>input = n, result = treeSum n, err = None\<rparr>"
proof (induction sch p n and sch p i ns tot cs and sch p n
        rule: computeTreeSum_childLoop_dispatchComputeTreeSumRequest.induct)
  case (1 sch p n)
  then show ?case by (cases n) simp
next
  case (2 sch p i tot cs)
  then show ?case by (simp add: Wait_sum)
next
  case (3 sch p i child rest tot cs)
  note perm = "3.prems"(1)
  show ?case
  proof (cases "CanShareWork sch (p @ [i])")
    case True
    let ?req = "\<lparr>input = child, result = treeSum child, err = None\<rparr>"
    have "dispatchComputeTreeSumRequest sch (p @ [i]) child = Return ?req"
      using "3.IH"(1)[OF True perm] .
    then have d: "RunAsync cs (dispatchComputeTreeSumRequest sch (p @ [i]) child)
                  = Return (cs @ [?req])"
      by (simp add: RunAsync_def)
    have "\<forall>r\<in>set (cs @ [?req]). err r = None"
      using "3.prems"(2) by simp
    from "3.IH"(2)[OF True d perm this] True d show ?thesis
      by simp
  next
    case False
    have s: "computeTreeSum sch (p @ [i]) child = Return (treeSum child, None)"
      using "3.IH"(3)[OF False perm] .
    from "3.IH"(4)[OF False s refl refl perm "3.prems"(2)] False s show ?thesis
      by simp
  qed
next
  case (4 sch p inp)
  have "ActiveWorkers sch p \<noteq> 0" by (simp add: ActiveWorkers_def)
  with 4 show ?case by simp
qed

lemma treeSum_buildTree_step:
  "0 < level \<Longrightarrow> treeSum (buildTree level) = 1 + level * treeSum (buildTree (level - 1))"
  by (subst buildTree.simps) (simp add: comp_def sum_list_triv)

lemma treeSum_buildTree_0: "treeSum (buildTree 0) = 1"
  by (subst buildTree.simps) simp

lemma treeSum_buildTree_6: "treeSum (buildTree 6) = 1957"
  by (simp add: treeSum_buildTree_step treeSum_buildTree_0)

text \<open>
  C9. \<open>computeTreeSum\<close> applied to \<open>buildTree 6\<close> returns 1957 and no error, for every worker
  capacity (0, 1, 10 and negative ones included), whatever number of busy workers each call
  of \<^verbatim>\<open>CanShareWork\<close> observes, that is for every pattern of share-versus-inline decisions,
  and in whatever order \<^verbatim>\<open>Wait\<close> hands the requests back (it hands back the requests of
  the group, each once).
\<close>

theorem computeTreeSum_buildTree_6:
  assumes "\<forall>cs. mset (waitOrder sch cs) = mset cs"
  shows "computeTreeSum sch [] (buildTree 6) = Return (1957, None)"
  using computeTreeSum_sum(1)[OF assms, of "[]" "buildTree 6"]
  by (simp add: treeSum_buildTree_6)

theorem computeTreeSum_buildTree_6_witness:
  "computeTreeSum \<lparr>capacity = 0, liveWorkers = (\<lambda>p. 0), waitOrder = (\<lambda>cs. cs)\<rparr> [] (buildTree 6)
     = Return (1957, None)
   \<and> computeTreeSum \<lparr>capacity = 1, liveWorkers = (\<lambda>p. length p mod 2), waitOrder = rev\<rparr> []
       (buildTree 6) = Return (1957, None)
   \<and> computeTreeSum \<lparr>capacity = 10, liveWorkers = (\<lambda>p. sum_list p), waitOrder = rev\<rparr> []
       (buildTree 6) = Return (1957, None)
   \<and> CanShareWork \<lparr>capacity = 10, liveWorkers = (\<lambda>p. sum_list p), waitOrder = rev\<rparr> [0]"
proof -
  have "computeTreeSum \<lparr>capacity = 0, liveWorkers = (\<lambda>p. 0), waitOrder = (\<lambda>cs. cs)\<rparr> []
          (buildTree 6) = Return (1957, None)"
    by (rule computeTreeSum_buildTree_6) simp
  moreover have "computeTreeSum \<lparr>capacity = 1, liveWorkers = (\<lambda>p. length p mod 2), waitOrder = rev\<rparr>
          [] (buildTree 6) = Return (1957, None)"
    by (rule computeTreeSum_buildTree_6) simp
  moreover have "computeTreeSum \<lparr>capacity = 10, liveWorkers = (\<lambda>p. sum_list p), waitOrder = rev\<rparr>
          [] (buildTree 6) = Return (1957, None)"
    by (rule computeTreeSum_buildTree_6) simp
  ultimately show ?thesis
    by (simp add: CanShareWork_def)
qed

section \<open>Properties of the environment\<close>

lemma logf_simps [simp]:
  "dir (logf m w) = dir w" "faults (logf m w) = faults w" "clock (logf m w) = clock w"
  "calls (logf m w) = calls w" "backend (logf m w) = backend w" "tmpName (logf m w) = tmpName w"
  "lookupFile (logf m w) fn = lookupFile w fn"
  by (simp_all add: logf_def lookupFile_def)

lemma osWriteFile_frame:
  "osWriteFile w fn b = (w', e) \<Longrightarrow>
     faults w' = faults w \<and> calls w' = calls w \<and> clock w' = clock w \<and> tmpName w' = tmpName w"
  by (auto simp: osWriteFile_def split: option.splits if_splits)

lemma osMkdirAll_frame [simp]:
  "faults (osMkdirAll w) = faults w" "calls (osMkdirAll w) = calls w"
  "clock (osMkdirAll w) = clock w" "tmpName (osMkdirAll w) = tmpName w"
  by (simp_all add: osMkdirAll_def split: option.splits)

lemma osRename_frame:
  "osRename w a b = (w', e) \<Longrightarrow> faults w' = faults w \<and> calls w' = calls w"
  by (auto simp: osRename_def split: option.splits if_splits)

lemma osRemove_frame:
  "osRemove w a = (w', e) \<Longrightarrow> faults w' = faults w \<and> calls w' = calls w"
  by (auto simp: osRemove_def split: option.splits if_splits)

lemma osRemove_frame_fst [simp]:
  "faults (fst (osRemove w a)) = faults w" "calls (fst (osRemove w a)) = calls w"
  using osRemove_frame[of w a] by (cases "osRemove w a"; simp)+

lemma renameTemp_frame:
  "renameTemp a b w = (w', e) \<Longrightarrow> faults w' = faults w \<and> calls w' = calls w"
  by (auto simp: renameTemp_def split: prod.splits option.splits dest!: osRename_frame)

lemma writeFileAtomic_frame:
  "writeFileAtomic fname b w = (w', e) \<Longrightarrow> faults w' = faults w \<and> calls w' = calls w"
  by (auto simp: writeFileAtomic_def Let_def split: prod.splits option.splits if_splits
           dest!: osWriteFile_frame renameTemp_frame)

lemma writeFileAtomic_frame_fst [simp]:
  "faults (fst (writeFileAtomic fname b w)) = faults w"
  "calls (fst (writeFileAtomic fname b w)) = calls w"
  using writeFileAtomic_frame[of fname b w] by (cases "writeFileAtomic fname b w"; simp)+

lemma map_of_fsDel_same [simp]: "map_of (fsDel fs k) k = None"
  by (auto simp: fsDel_def map_of_eq_None_iff)

lemma map_of_fsDel_other [simp]: "k' \<noteq> k \<Longrightarrow> map_of (fsDel fs k) k' = map_of fs k'"
  unfolding fsDel_def by (induction fs) auto

lemma map_of_fsPut [simp]: "map_of (fsPut fs k v) k' = (if k' = k then Some v else map_of fs k')"
  unfolding fsPut_def by (induction fs) auto

lemma lookupFile_osRemove_same:
  "RemoveFault fn \<notin> set (faults w) \<Longrightarrow> lookupFile (fst (osRemove w fn)) fn = None"
  by (auto simp: osRemove_def lookupFile_def split: option.splits)

lemma lookupFile_osRemove_None:
  "lookupFile w fn' = None \<Longrightarrow> lookupFile (fst (osRemove w fn)) fn' = None"
  by (cases "fn' = fn") (auto simp: osRemove_def lookupFile_def split: option.splits)

lemma lookupFile_deleteListCache:
  assumes "n = ''list-full'' \<or> n = ''list-active''"
      and "RemoveFault (cachedItemName n) \<notin> set (faults w)"
  shows "lookupFile (deleteListCache w) (cachedItemName n) = None"
  using assms
  by (auto simp: deleteListCache_def Let_def lookupFile_osRemove_same lookupFile_osRemove_None)

lemma writeFileAtomic_ok:
  assumes "faults w = []"
  shows "\<exists>w'. writeFileAtomic fname b w = (w', None) \<and>
           lookupFile w' fname = Some \<lparr>content = b, modTime = clock w\<rparr>"
  using assms
  by (auto simp: writeFileAtomic_def Let_def osWriteFile_def osMkdirAll_def renameTemp_def
        osRename_def lookupFile_def split: option.splits)

section \<open>Properties of getBlock\<close>

text \<open>
  C5. When \<open>getBlock\<close> finds a local cache file for the virtual key (the read succeeds) and
  the HMAC of the file verifies, it returns the entire stored payload, that is the file
  without its 32-byte tag, whatever offset and length were requested, and it leaves the
  world as it was: the storage collaborator is not called and nothing is written.
\<close>

theorem getBlock_cache_hit:
  assumes "osReadFile w (cachedItemName virtualBlockID) = (b, None)"
      and "verifyHMAC (hmacSHA256 L) (hmacSecret c) b = (payload, None)"
  shows "getBlock L c virtualBlockID physicalBlockID offset len w = ((payload, None), w)
         \<and> payload = take (length b - sha256_Size) b"
proof -
  have "payload = take (length b - sha256_Size) b"
    using assms(2) by (auto simp: verifyHMAC_def Let_def split: if_splits)
  then show ?thesis
    using assms by (simp add: getBlock_def)
qed

theorem getBlock_cache_hit_witness:
  "getBlock exampleLib exampleCache ''blk'' ''phys'' 1 2 blockWorld
     = (([1, 2, 3, 4, 5], None), blockWorld)
   \<and> applyOffsetAndLength [1, 2, 3, 4, 5] 1 2 = Return ([2, 3], None)"
proof -
  have rd: "osReadFile blockWorld (cachedItemName ''blk'')
              = (appendHMAC exampleHmac [7, 9] [1, 2, 3, 4, 5], None)"
    by code_simp
  have vf: "verifyHMAC (hmacSHA256 exampleLib) (hmacSecret exampleCache)
              (appendHMAC exampleHmac [7, 9] [1, 2, 3, 4, 5]) = ([1, 2, 3, 4, 5], None)"
    by code_simp
  have "applyOffsetAndLength [1, 2, 3, 4, 5] 1 2 = Return ([2, 3], None)"
    by (simp add: applyOffsetAndLength_def len64_def goSlice_def)
  with getBlock_cache_hit[OF rd vf, of "''phys''" 1 2] show ?thesis
    by simp
qed

lemma getBlockFromStorage_result:
  "snd (fst (getBlockFromStorage L c fn physicalBlockID offset len w))
     = snd (stGetBlock (st c) (backend w) physicalBlockID offset len)
   \<and> calls (snd (getBlockFromStorage L c fn physicalBlockID offset len w))
     = calls w @ [CallGetBlock physicalBlockID offset len]"
  by (cases "writeFileAtomic fn (appendHMAC (hmacSHA256 L) (hmacSecret c)
                (fst (stGetBlock (st c) (backend w) physicalBlockID offset len)))
               (w\<lparr>calls := calls w @ [CallGetBlock physicalBlockID offset len]\<rparr>)")
     (auto simp: getBlockFromStorage_def Let_def split: option.splits dest!: writeFileAtomic_frame)

text \<open>
  The part of C1 that holds: a cache file of \<open>getBlock\<close> that fails verification is logged,
  the storage collaborator is called, and the error returned is the one of that call.
\<close>

lemma getBlock_malformed_falls_through:
  assumes "osReadFile w (cachedItemName virtualBlockID) = (b, None)"
      and "verifyHMAC (hmacSHA256 L) (hmacSecret c) b = (x, Some e)"
  shows "getBlock L c virtualBlockID physicalBlockID offset len w =
           getBlockFromStorage L c (cachedItemName virtualBlockID) physicalBlockID offset len
             (logf ''warning: malformed block'' w)"
  using assms by (simp add: getBlock_def)

section \<open>Properties of putBlock\<close>

text \<open>
  C6. \<open>putBlock\<close> returns exactly what \<^verbatim>\<open>PutBlock\<close> of the storage collaborator returns, so an
  error exactly when the backend write fails. When it fails, nothing but the call itself
  happened: the cache directory, the log and the faults are as before (no mirror, no
  invalidation). When it succeeds the result is \<open>nil\<close> whatever happens to the mirror
  write, and afterwards neither reserved listing entry (\<open>list-full\<close>, \<open>list-active\<close>) exists,
  unless the operating system refuses to remove that very file.
\<close>

theorem putBlock_backend_first:
  "fst (putBlock L c blockID data w) = fst (stPutBlock (st c) (backend w) blockID data)
   \<and> (fst (stPutBlock (st c) (backend w) blockID data) \<noteq> None \<longrightarrow>
        snd (putBlock L c blockID data w) =
          w\<lparr>backend := snd (stPutBlock (st c) (backend w) blockID data),
            calls := calls w @ [CallPutBlock blockID data]\<rparr>)
   \<and> (fst (stPutBlock (st c) (backend w) blockID data) = None \<longrightarrow>
        (\<forall>n\<in>{''list-full'', ''list-active''}.
           RemoveFault (cachedItemName n) \<notin> set (faults w) \<longrightarrow>
           lookupFile (snd (putBlock L c blockID data w)) (cachedItemName n) = None))"
proof (intro conjI impI ballI)
  show "fst (putBlock L c blockID data w) = fst (stPutBlock (st c) (backend w) blockID data)"
    by (simp add: putBlock_def Let_def split: option.splits)
next
  assume "fst (stPutBlock (st c) (backend w) blockID data) \<noteq> None"
  then show "snd (putBlock L c blockID data w) =
          w\<lparr>backend := snd (stPutBlock (st c) (backend w) blockID data),
            calls := calls w @ [CallPutBlock blockID data]\<rparr>"
    by (auto simp: putBlock_def Let_def split: option.splits)
next
  fix n
  assume ok: "fst (stPutBlock (st c) (backend w) blockID data) = None"
    and n: "n \<in> {''list-full'', ''list-active''}"
    and nf: "RemoveFault (cachedItemName n) \<notin> set (faults w)"
  let ?w1 = "w\<lparr>backend := snd (stPutBlock (st c) (backend w) blockID data),
               calls := calls w @ [CallPutBlock blockID data]\<rparr>"
  let ?w2 = "fst (writeFileAtomic (blockID @ cachedSuffix)
                   (appendHMAC (hmacSHA256 L) (hmacSecret c) data) ?w1)"
  have "snd (putBlock L c blockID data w) = deleteListCache ?w2"
    using ok by (simp add: putBlock_def Let_def)
  moreover have "RemoveFault (cachedItemName n) \<notin> set (faults ?w2)"
    using nf by simp
  ultimately show "lookupFile (snd (putBlock L c blockID data w)) (cachedItemName n) = None"
    using n lookupFile_deleteListCache[of n ?w2] by auto
qed

theorem putBlock_backend_first_witness:
  "fst (putBlock exampleLib exampleCache ''bad'' [1] listWorld) = Some (ErrBackend ''put failed'')
   \<and> dir (snd (putBlock exampleLib exampleCache ''bad'' [1] listWorld)) = dir listWorld
   \<and> fst (putBlock exampleLib exampleCache ''blk'' [1] (listWorld\<lparr>faults := [WriteFault]\<rparr>)) = None
   \<and> lookupFile (snd (putBlock exampleLib exampleCache ''blk'' [1]
        (listWorld\<lparr>faults := [WriteFault]\<rparr>))) (cachedItemName ''list-full'') = None
   \<and> lookupFile (listWorld\<lparr>faults := [WriteFault]\<rparr>) (cachedItemName ''list-full'') \<noteq> None"
proof -
  note bad = putBlock_backend_first[of exampleLib exampleCache "''bad''" "[1]" listWorld]
  note good = putBlock_backend_first[of exampleLib exampleCache "''blk''" "[1]"
                "listWorld\<lparr>faults := [WriteFault]\<rparr>"]
  have b: "fst (stPutBlock (st exampleCache) (backend listWorld) ''bad'' [1])
             = Some (ErrBackend ''put failed'')"
    by (simp add: exampleCache_def exampleStorage_def)
  have g: "fst (stPutBlock (st exampleCache) (backend (listWorld\<lparr>faults := [WriteFault]\<rparr>)) ''blk'' [1])
             = None"
    by (simp add: exampleCache_def exampleStorage_def)
  have "fst (putBlock exampleLib exampleCache ''bad'' [1] listWorld) = Some (ErrBackend ''put failed'')"
    using bad b by simp
  moreover have "dir (snd (putBlock exampleLib exampleCache ''bad'' [1] listWorld)) = dir listWorld"
    using bad b by simp
  moreover have "fst (putBlock exampleLib exampleCache ''blk'' [1]
                   (listWorld\<lparr>faults := [WriteFault]\<rparr>)) = None"
    using good g by simp
  moreover have "lookupFile (snd (putBlock exampleLib exampleCache ''blk'' [1]
        (listWorld\<lparr>faults := [WriteFault]\<rparr>))) (cachedItemName ''list-full'') = None"
    using good g by simp
  moreover have "lookupFile (listWorld\<lparr>faults := [WriteFault]\<rparr>) (cachedItemName ''list-full'') \<noteq> None"
    by code_simp
  ultimately show ?thesis by simp
qed

section \<open>Properties of listIndexBlocks\<close>

lemma listIndexBlocksFromSource_result:
  "fst (listIndexBlocksFromSource L c full k w) = listIndexBlocksFromStorage L (backend w) full
   \<and> calls (snd (listIndexBlocksFromSource L c full k w)) = calls w @ [CallListIndexBlocks full]"
proof -
  let ?r = "listIndexBlocksFromStorage L (backend w) full"
  let ?w2 = "logf ''saving index blocks to cache''
               ((logf ''listing index blocks from source'' w)
                  \<lparr>calls := calls w @ [CallListIndexBlocks full]\<rparr>)"
  show ?thesis
  proof (cases "snd ?r")
    case (Some e)
    then show ?thesis by (simp add: listIndexBlocksFromSource_def Let_def)
  next
    case True: None
    show ?thesis
    proof (cases "jsonMarshal L (fst ?r)")
      case None
      with True show ?thesis by (simp add: listIndexBlocksFromSource_def Let_def)
    next
      case (Some data)
      obtain w3 e where wr: "writeFileAtomic k (appendHMAC (hmacSHA256 L) (hmacSecret c) data) ?w2 = (w3, e)"
        by (cases "writeFileAtomic k (appendHMAC (hmacSHA256 L) (hmacSecret c) data) ?w2") auto
      from writeFileAtomic_frame[OF wr] have "calls w3 = calls w @ [CallListIndexBlocks full]"
        by simp
      with True Some wr show ?thesis
        by (cases e) (simp_all add: listIndexBlocksFromSource_def Let_def)
    qed
  qed
qed

lemma listIndexBlocksFromSource_persists:
  assumes "snd (listIndexBlocksFromStorage L (backend w) full) = None"
      and "jsonMarshal L (fst (listIndexBlocksFromStorage L (backend w) full)) = Some data"
      and "faults w = []"
  shows "lookupFile (snd (listIndexBlocksFromSource L c full k w)) k
           = Some \<lparr>content = appendHMAC (hmacSHA256 L) (hmacSecret c) data, modTime = clock w\<rparr>"
proof -
  let ?w2 = "logf ''saving index blocks to cache''
               ((logf ''listing index blocks from source'' w)
                  \<lparr>calls := calls w @ [CallListIndexBlocks full]\<rparr>)"
  have "faults ?w2 = []" "clock ?w2 = clock w"
    using assms(3) by (simp_all add: logf_def)
  with writeFileAtomic_ok[of ?w2 k "appendHMAC (hmacSHA256 L) (hmacSecret c) data"]
  obtain w3 where "writeFileAtomic k (appendHMAC (hmacSHA256 L) (hmacSecret c) data) ?w2 = (w3, None)"
    "lookupFile w3 k = Some \<lparr>content = appendHMAC (hmacSHA256 L) (hmacSecret c) data, modTime = clock w\<rparr>"
    by auto
  with assms(1,2) show ?thesis
    by (simp add: listIndexBlocksFromSource_def Let_def)
qed

lemma listIndexBlocks_cases:
  "listIndexBlocks L c full w =
     (let k = cachedItemName (if full then ''list-full'' else ''list-active'')
      in case lookupFile w k of
           None \<Rightarrow> listIndexBlocksFromSource L c full k (logf ''unable to open cache file'' w)
         | Some f \<Rightarrow>
             if OpenFault k \<in> set (faults w)
             then listIndexBlocksFromSource L c full k (logf ''unable to open cache file'' w)
             else if StatFault k \<in> set (faults w) \<or> modTime f + listCacheDuration c \<le> clock w
             then listIndexBlocksFromSource L c full k w
             else (readBlocksFromCacheFile L c (k, f) (logf ''listing index blocks from cache'' w),
                   logf ''listing index blocks from cache'' w))"
  by (auto simp: listIndexBlocks_def Let_def osOpen_def fStat_def fileInfo_def
           split: option.splits)

lemma listIndexBlocks_served_from_cache:
  assumes key: "key = cachedItemName (if full then ''list-full'' else ''list-active'')"
      and same: "calls (snd (listIndexBlocks L c full w)) = calls w"
  shows "\<exists>f. lookupFile w key = Some f \<and> OpenFault key \<notin> set (faults w) \<and>
             StatFault key \<notin> set (faults w) \<and> clock w - modTime f < listCacheDuration c \<and>
             listIndexBlocks L c full w =
               (readBlocksFromCacheFile L c (key, f) (logf ''listing index blocks from cache'' w),
                logf ''listing index blocks from cache'' w)"
proof -
  have nosrc: "listIndexBlocks L c full w \<noteq> listIndexBlocksFromSource L c full key w0"
    if "calls w0 = calls w" for w0
    using same that listIndexBlocksFromSource_result[of L c full key w0] by auto
  show ?thesis
    using key nosrc[of w] nosrc[of "logf ''unable to open cache file'' w"]
    by (cases "lookupFile w key") (auto simp: listIndexBlocks_cases Let_def split: if_splits)
qed

lemma listIndexBlocks_from_source:
  assumes key: "key = cachedItemName (if full then ''list-full'' else ''list-active'')"
      and miss: "lookupFile w key = None \<or>
                 (\<exists>f. lookupFile w key = Some f \<and> listCacheDuration c \<le> clock w - modTime f)"
  shows "\<exists>w0. calls w0 = calls w \<and> faults w0 = faults w \<and> clock w0 = clock w \<and>
              backend w0 = backend w \<and>
              listIndexBlocks L c full w = listIndexBlocksFromSource L c full key w0"
proof (cases "lookupFile w key")
  case None
  then show ?thesis
    using key by (intro exI[of _ "logf ''unable to open cache file'' w"])
                 (simp add: listIndexBlocks_cases)
next
  case (Some f)
  with miss have old: "listCacheDuration c \<le> clock w - modTime f" by simp
  show ?thesis
  proof (cases "OpenFault key \<in> set (faults w)")
    case True
    with Some show ?thesis
      using key by (intro exI[of _ "logf ''unable to open cache file'' w"])
                   (simp add: listIndexBlocks_cases)
  next
    case False
    with Some old show ?thesis
      using key by (intro exI[of _ w]) (simp add: listIndexBlocks_cases)
  qed
qed

text \<open>
  C7, as the claim states it, fails. The listing cache file \<open>list-full.cached\<close> exists, its
  HMAC verifies and its age (40) is within \<open>listCacheDuration\<close> (100), but its payload is
  not a serialised listing. \<open>listIndexBlocks\<close> serves no decoded result: it returns the error
  "can't unmarshal cached list results".
\<close>

theorem listIndexBlocks_undecodable_cache_file_is_error:
  "lookupFile undecodableListWorld (cachedItemName ''list-full'')
     = Some \<lparr>content = appendHMAC exampleHmac [7, 9] [255], modTime = 10\<rparr>
   \<and> verifyHMAC (hmacSHA256 exampleLib) (hmacSecret exampleCache)
       (appendHMAC exampleHmac [7, 9] [255]) = ([255], None)
   \<and> clock undecodableListWorld - 10 < listCacheDuration exampleCache
   \<and> fst (listIndexBlocks exampleLib exampleCache True undecodableListWorld)
       = ([], Some ErrUnmarshal)
   \<and> calls (snd (listIndexBlocks exampleLib exampleCache True undecodableListWorld)) = []"
  by code_simp

text \<open>
  C7, amended. With \<open>key\<close> the reserved cache file of the listing: \<open>listIndexBlocks\<close> returns a
  listing without calling the storage collaborator exactly when the file exists, can be
  opened, inspected and read, its HMAC verifies, its payload decodes, and its age
  \<open>clock - modTime\<close> is below \<open>listCacheDuration\<close>; the listing returned is then the decoded
  payload, and the directory is left as it was. Whenever the storage collaborator is not
  called, the file exists and its age is below \<open>listCacheDuration\<close>: what is served from the
  cache is never staler than that. When the file is missing, or once its age has reached
  \<open>listCacheDuration\<close>, the result is the one of a fresh call of the backend listing, made
  exactly once, and when that call succeeds, the result can be serialised and no file
  operation fails, the file under the same key then holds the signed new listing, stamped
  with the current time.
\<close>

theorem listIndexBlocks_cache_ttl:
  assumes key: "key = cachedItemName (if full then ''list-full'' else ''list-active'')"
  shows "((\<exists>blocks. fst (listIndexBlocks L c full w) = (blocks, None) \<and>
                   calls (snd (listIndexBlocks L c full w)) = calls w)
          = (\<exists>f d blocks.
               lookupFile w key = Some f \<and> OpenFault key \<notin> set (faults w) \<and>
               StatFault key \<notin> set (faults w) \<and> ReadFault key \<notin> set (faults w) \<and>
               clock w - modTime f < listCacheDuration c \<and>
               verifyHMAC (hmacSHA256 L) (hmacSecret c) (content f) = (d, None) \<and>
               jsonUnmarshal L d = Some blocks))
       \<and> (\<forall>f d blocks.
            lookupFile w key = Some f \<and> OpenFault key \<notin> set (faults w) \<and>
            StatFault key \<notin> set (faults w) \<and> ReadFault key \<notin> set (faults w) \<and>
            clock w - modTime f < listCacheDuration c \<and>
            verifyHMAC (hmacSHA256 L) (hmacSecret c) (content f) = (d, None) \<and>
            jsonUnmarshal L d = Some blocks \<longrightarrow>
            fst (listIndexBlocks L c full w) = (blocks, None) \<and>
            calls (snd (listIndexBlocks L c full w)) = calls w \<and>
            dir (snd (listIndexBlocks L c full w)) = dir w)
       \<and> (calls (snd (listIndexBlocks L c full w)) = calls w \<longrightarrow>
            (\<exists>f. lookupFile w key = Some f \<and> clock w - modTime f < listCacheDuration c))
       \<and> (lookupFile w key = None \<or>
          (\<exists>f. lookupFile w key = Some f \<and> listCacheDuration c \<le> clock w - modTime f) \<longrightarrow>
            fst (listIndexBlocks L c full w) = listIndexBlocksFromStorage L (backend w) full \<and>
            calls (snd (listIndexBlocks L c full w)) = calls w @ [CallListIndexBlocks full] \<and>
            (\<forall>data. snd (listIndexBlocksFromStorage L (backend w) full) = None \<and>
               jsonMarshal L (fst (listIndexBlocksFromStorage L (backend w) full)) = Some data \<and>
               faults w = [] \<longrightarrow>
               lookupFile (snd (listIndexBlocks L c full w)) key =
                 Some \<lparr>content = appendHMAC (hmacSHA256 L) (hmacSecret c) data,
                       modTime = clock w\<rparr>))"
proof -
  have hit: "fst (listIndexBlocks L c full w) = (blocks, None) \<and>
            calls (snd (listIndexBlocks L c full w)) = calls w \<and>
            dir (snd (listIndexBlocks L c full w)) = dir w"
    if a: "lookupFile w key = Some f \<and> OpenFault key \<notin> set (faults w) \<and>
            StatFault key \<notin> set (faults w) \<and> ReadFault key \<notin> set (faults w) \<and>
            clock w - modTime f < listCacheDuration c \<and>
            verifyHMAC (hmacSHA256 L) (hmacSecret c) (content f) = (d, None) \<and>
            jsonUnmarshal L d = Some blocks" for f d blocks
  proof -
    from a have r: "listIndexBlocks L c full w =
       (readBlocksFromCacheFile L c (key, f) (logf ''listing index blocks from cache'' w),
        logf ''listing index blocks from cache'' w)"
      using key by (simp add: listIndexBlocks_cases)
    have "readBlocksFromCacheFile L c (key, f) (logf ''listing index blocks from cache'' w)
          = (blocks, None)"
      using a by (simp add: readBlocksFromCacheFile_def osReadAll_def)
    with r show ?thesis by simp
  qed
  have served: "\<exists>f d blocks.
               lookupFile w key = Some f \<and> OpenFault key \<notin> set (faults w) \<and>
               StatFault key \<notin> set (faults w) \<and> ReadFault key \<notin> set (faults w) \<and>
               clock w - modTime f < listCacheDuration c \<and>
               verifyHMAC (hmacSHA256 L) (hmacSecret c) (content f) = (d, None) \<and>
               jsonUnmarshal L d = Some blocks"
    if ok: "fst (listIndexBlocks L c full w) = (bs, None)"
      and same: "calls (snd (listIndexBlocks L c full w)) = calls w" for bs
  proof -
    from listIndexBlocks_served_from_cache[OF key same] obtain f where
      f: "lookupFile w key = Some f" "OpenFault key \<notin> set (faults w)"
         "StatFault key \<notin> set (faults w)" "clock w - modTime f < listCacheDuration c"
      and r: "listIndexBlocks L c full w =
               (readBlocksFromCacheFile L c (key, f) (logf ''listing index blocks from cache'' w),
                logf ''listing index blocks from cache'' w)"
      by blast
    from ok r have "readBlocksFromCacheFile L c (key, f)
        (logf ''listing index blocks from cache'' w) = (bs, None)"
      by simp
    then have "ReadFault key \<notin> set (faults w) \<and>
               (\<exists>d. verifyHMAC (hmacSHA256 L) (hmacSecret c) (content f) = (d, None) \<and>
                    jsonUnmarshal L d = Some bs)"
      by (auto simp: readBlocksFromCacheFile_def osReadAll_def
               split: sum.splits prod.splits option.splits if_splits)
    with f show ?thesis by blast
  qed
  have stale: "\<exists>f. lookupFile w key = Some f \<and> clock w - modTime f < listCacheDuration c"
    if "calls (snd (listIndexBlocks L c full w)) = calls w"
    using listIndexBlocks_served_from_cache[OF key that] by blast
  have miss: "fst (listIndexBlocks L c full w) = listIndexBlocksFromStorage L (backend w) full \<and>
            calls (snd (listIndexBlocks L c full w)) = calls w @ [CallListIndexBlocks full] \<and>
            (\<forall>data. snd (listIndexBlocksFromStorage L (backend w) full) = None \<and>
               jsonMarshal L (fst (listIndexBlocksFromStorage L (backend w) full)) = Some data \<and>
               faults w = [] \<longrightarrow>
               lookupFile (snd (listIndexBlocks L c full w)) key =
                 Some \<lparr>content = appendHMAC (hmacSHA256 L) (hmacSecret c) data,
                       modTime = clock w\<rparr>)"
    if m: "lookupFile w key = None \<or>
          (\<exists>f. lookupFile w key = Some f \<and> listCacheDuration c \<le> clock w - modTime f)"
  proof -
    from listIndexBlocks_from_source[OF key m] obtain w0 where
      w0: "calls w0 = calls w" "faults w0 = faults w" "clock w0 = clock w" "backend w0 = backend w"
      and r: "listIndexBlocks L c full w = listIndexBlocksFromSource L c full key w0"
      by blast
    have "lookupFile (snd (listIndexBlocks L c full w)) key =
                 Some \<lparr>content = appendHMAC (hmacSHA256 L) (hmacSecret c) data,
                       modTime = clock w\<rparr>"
      if "snd (listIndexBlocksFromStorage L (backend w) full) = None \<and>
               jsonMarshal L (fst (listIndexBlocksFromStorage L (backend w) full)) = Some data \<and>
               faults w = []" for data
      using that r w0 listIndexBlocksFromSource_persists[of L w0 full data c key] by simp
    with r w0 listIndexBlocksFromSource_result[of L c full key w0] show ?thesis
      by simp
  qed
  show ?thesis
  proof (intro conjI allI impI)
    show "(\<exists>blocks. fst (listIndexBlocks L c full w) = (blocks, None) \<and>
                   calls (snd (listIndexBlocks L c full w)) = calls w)
          = (\<exists>f d blocks.
               lookupFile w key = Some f \<and> OpenFault key \<notin> set (faults w) \<and>
               StatFault key \<notin> set (faults w) \<and> ReadFault key \<notin> set (faults w) \<and>
               clock w - modTime f < listCacheDuration c \<and>
               verifyHMAC (hmacSHA256 L) (hmacSecret c) (content f) = (d, None) \<and>
               jsonUnmarshal L d = Some blocks)"
      using hit served by blast
  qed (use hit stale miss in blast)+
qed

theorem listIndexBlocks_cache_ttl_witness:
  "fst (listIndexBlocks exampleLib exampleCache True listWorld)
     = ([\<lparr>BlockID = ''P'', Length = 4, Timestamp = 0\<rparr>,
         \<lparr>BlockID = ''P'', Length = 2, Timestamp = 0\<rparr>], None)
   \<and> calls (snd (listIndexBlocks exampleLib exampleCache True listWorld)) = []
   \<and> fst (listIndexBlocks exampleLib exampleCache True (listWorld\<lparr>clock := 110\<rparr>))
       = ([\<lparr>BlockID = ''P'', Length = 5, Timestamp = 0\<rparr>], None)
   \<and> calls (snd (listIndexBlocks exampleLib exampleCache True (listWorld\<lparr>clock := 110\<rparr>)))
       = [CallListIndexBlocks True]
   \<and> calls (snd (listIndexBlocks exampleLib exampleCache True exampleWorld))
       = [CallListIndexBlocks True]"
proof -
  let ?f = "\<lparr>content = appendHMAC exampleHmac [7, 9] [4, 2], modTime = 10\<rparr>"
  let ?key = "cachedItemName (if True then ''list-full'' else ''list-active'')"
  let ?late = "listWorld\<lparr>clock := 110\<rparr>"
  note fresh = listIndexBlocks_cache_ttl
     [where full = True and w = listWorld and c = exampleCache and L = exampleLib, OF refl,
      THEN conjunct2, THEN conjunct1, rule_format]
  note stale = listIndexBlocks_cache_ttl
     [where full = True and w = ?late and c = exampleCache and L = exampleLib, OF refl,
      THEN conjunct2, THEN conjunct2, THEN conjunct2, rule_format]
  note cold = listIndexBlocks_cache_ttl
     [where full = True and w = exampleWorld and c = exampleCache and L = exampleLib, OF refl,
      THEN conjunct2, THEN conjunct2, THEN conjunct2, rule_format]
  have hit: "lookupFile listWorld ?key = Some ?f \<and> OpenFault ?key \<notin> set (faults listWorld) \<and>
            StatFault ?key \<notin> set (faults listWorld) \<and> ReadFault ?key \<notin> set (faults listWorld) \<and>
            clock listWorld - modTime ?f < listCacheDuration exampleCache \<and>
            verifyHMAC (hmacSHA256 exampleLib) (hmacSecret exampleCache) (content ?f)
              = ([4, 2], None) \<and>
            jsonUnmarshal exampleLib [4, 2]
              = Some [\<lparr>BlockID = ''P'', Length = 4, Timestamp = 0\<rparr>,
                      \<lparr>BlockID = ''P'', Length = 2, Timestamp = 0\<rparr>]"
    by code_simp
  have old: "lookupFile ?late ?key = None \<or>
             (\<exists>f. lookupFile ?late ?key = Some f \<and>
                  listCacheDuration exampleCache \<le> clock ?late - modTime f)"
  proof -
    have "lookupFile ?late ?key = Some ?f \<and>
          listCacheDuration exampleCache \<le> clock ?late - modTime ?f"
      by code_simp
    then show ?thesis by blast
  qed
  have none: "lookupFile exampleWorld ?key = None \<or>
             (\<exists>f. lookupFile exampleWorld ?key = Some f \<and>
                  listCacheDuration exampleCache \<le> clock exampleWorld - modTime f)"
  proof -
    have "lookupFile exampleWorld ?key = None"
      by code_simp
    then show ?thesis by blast
  qed
  have env: "calls listWorld = []" "calls ?late = []" "calls exampleWorld = []"
    "listIndexBlocksFromStorage exampleLib (backend ?late) True
       = ([\<lparr>BlockID = ''P'', Length = 5, Timestamp = 0\<rparr>], None)"
    by code_simp+
  from fresh[OF hit] stale[OF old] cold[OF none] env show ?thesis
    by simp
qed

text \<open>
  What \<open>listIndexBlocks\<close> does with a fresh cache file that fails verification: it returns
  the verification error and does not call the storage collaborator. Compare
  \<open>getBlock_malformed_falls_through\<close>: \<open>getBlock\<close> logs and goes on to the backend.
\<close>

lemma listIndexBlocks_invalid_hmac:
  assumes "key = cachedItemName (if full then ''list-full'' else ''list-active'')"
      and "lookupFile w key = Some f" and "OpenFault key \<notin> set (faults w)"
      and "StatFault key \<notin> set (faults w)" and "ReadFault key \<notin> set (faults w)"
      and "clock w - modTime f < listCacheDuration c"
      and "verifyHMAC (hmacSHA256 L) (hmacSecret c) (content f) = (d, Some e)"
  shows "fst (listIndexBlocks L c full w) = ([], Some e)"
    and "calls (snd (listIndexBlocks L c full w)) = calls w"
  using assms
  by (simp_all add: listIndexBlocks_cases readBlocksFromCacheFile_def osReadAll_def)

text \<open>
  A fresh cache file that verifies and whose payload \<^verbatim>\<open>json.Unmarshal\<close> rejects is answered
  the same way: with the error, and without a call of the storage collaborator.
\<close>

lemma listIndexBlocks_undecodable:
  assumes "key = cachedItemName (if full then ''list-full'' else ''list-active'')"
      and "lookupFile w key = Some f" and "OpenFault key \<notin> set (faults w)"
      and "StatFault key \<notin> set (faults w)" and "ReadFault key \<notin> set (faults w)"
      and "clock w - modTime f < listCacheDuration c"
      and "verifyHMAC (hmacSHA256 L) (hmacSecret c) (content f) = (d, None)"
      and "jsonUnmarshal L d = None"
  shows "fst (listIndexBlocks L c full w) = ([], Some ErrUnmarshal)"
    and "calls (snd (listIndexBlocks L c full w)) = calls w"
  using assms
  by (simp_all add: listIndexBlocks_cases readBlocksFromCacheFile_def osReadAll_def)

text \<open>
  C1 at a concrete input: the listing cache file \<open>list-full.cached\<close> is fresh and holds three
  bytes, so it is too short to carry a tag. \<open>listIndexBlocks\<close> returns the verification error
  "invalid data - too short" to its caller and makes no call to the storage collaborator,
  whose listing would have succeeded.
\<close>

theorem listIndexBlocks_unsigned_cache_file_is_error:
  "fst (listIndexBlocks exampleLib exampleCache True corruptListWorld) = ([], Some ErrTooShort)
   \<and> calls (snd (listIndexBlocks exampleLib exampleCache True corruptListWorld)) = []
   \<and> listIndexBlocksFromStorage exampleLib (backend corruptListWorld) True
       = ([\<lparr>BlockID = ''P'', Length = 5, Timestamp = 0\<rparr>], None)"
  by code_simp

section \<open>Properties of sweepDirectory\<close>

lemma fsDel_absent: "map_of fs n = None \<Longrightarrow> fsDel fs n = fs"
  by (auto simp: fsDel_def map_of_eq_None_iff filter_id_conv)

lemma osRemove_dir:
  assumes "dir w = Some fs" and "RemoveFault n \<notin> set (faults w)" and "osRemove w n = (w', e)"
  shows "dir w' = Some (fsDel fs n) \<and> faults w' = faults w"
  using assms by (auto simp: osRemove_def fsDel_absent split: option.splits)

lemma cacheEntries_simps [simp]:
  "cacheEntries [] = []"
  "cacheEntries (it # its) =
     (if HasSuffix (Name it) cachedSuffix then it # cacheEntries its else cacheEntries its)"
  by (simp_all add: cacheEntries_def)

lemma totalSize_simps [simp]:
  "totalSize [] = 0" "totalSize (it # its) = sint (Size it) + totalSize its"
  "totalSize (xs @ ys) = totalSize xs + totalSize ys"
  by (simp_all add: totalSize_def)

lemma totalSize_nonneg:
  "\<forall>it\<in>set its. 0 \<le> sint (Size it) \<Longrightarrow> 0 \<le> totalSize its"
  by (induction its) auto

lemma totalSize_cacheEntries_le:
  "\<forall>it\<in>set its. 0 \<le> sint (Size it) \<Longrightarrow> totalSize (cacheEntries its) \<le> totalSize its"
  by (induction its) auto

lemma sweepLoop_delete_all:
  assumes "sint B < sint tot" and "dir w = Some fs" and "\<forall>n. RemoveFault n \<notin> set (faults w)"
  shows "snd (sweepLoop B its tot w) = tot \<and>
         dir (fst (sweepLoop B its tot w)) =
           Some (filter (\<lambda>e. fst e \<notin> Name ` set (cacheEntries its)) fs) \<and>
         faults (fst (sweepLoop B its tot w)) = faults w"
  using assms
proof (induction its arbitrary: w fs)
  case Nil
  then show ?case by simp
next
  case (Cons it its)
  show ?case
  proof (cases "HasSuffix (Name it) cachedSuffix")
    case False
    with Cons.IH[OF Cons.prems] show ?thesis by simp
  next
    case True
    obtain w1 e where rm: "osRemove w (Name it) = (w1, e)"
      by (cases "osRemove w (Name it)") auto
    from osRemove_dir[OF Cons.prems(2) _ rm] Cons.prems(3)
    have d1: "dir w1 = Some (fsDel fs (Name it))" and f1: "faults w1 = faults w"
      by auto
    let ?w2 = "case e of None \<Rightarrow> w1 | Some x \<Rightarrow> logf ''warning: unable to remove'' w1"
    have d2: "dir ?w2 = Some (fsDel fs (Name it))" and f2: "\<forall>n. RemoveFault n \<notin> set (faults ?w2)"
      and f2': "faults ?w2 = faults w"
      using d1 f1 Cons.prems(3) by (auto split: option.splits)
    have step: "sweepLoop B (it # its) tot w = sweepLoop B its tot ?w2"
      using True Cons.prems(1) rm by (cases e) simp_all
    from Cons.IH[OF Cons.prems(1) d2 f2] step f2' True show ?thesis
      by (auto simp: fsDel_def conj_commute)
  qed
qed

lemma runningTotal_simps [simp]:
  "runningTotal [] = 0" "runningTotal (it # its) = Size it + runningTotal its"
  by (simp_all add: runningTotal_def)

text \<open>
  The loop, with the running total as it is computed: the entries retained are a prefix of
  the cache entries, each of them examined with a total at or below the budget, and the
  prefix ends where the total exceeds the budget.
\<close>

lemma sweepLoop_spec:
  assumes "dir w = Some fs" and "\<forall>n. RemoveFault n \<notin> set (faults w)"
  shows "\<exists>k\<le>length (cacheEntries its).
           dir (fst (sweepLoop B its tot w)) =
             Some (filter (\<lambda>e. fst e \<notin> Name ` set (drop k (cacheEntries its))) fs) \<and>
           snd (sweepLoop B its tot w) = tot + runningTotal (take k (cacheEntries its)) \<and>
           (\<forall>j<k. sint (tot + runningTotal (take j (cacheEntries its))) \<le> sint B) \<and>
           (k < length (cacheEntries its) \<longrightarrow>
              sint B < sint (tot + runningTotal (take k (cacheEntries its))))"
  using assms
proof (induction its arbitrary: tot)
  case Nil
  then show ?case by simp
next
  case (Cons it its)
  show ?case
  proof (cases "HasSuffix (Name it) cachedSuffix")
    case False
    with Cons.IH[OF Cons.prems, of tot] show ?thesis by simp
  next
    case True
    show ?thesis
    proof (cases "sint B < sint tot")
      case over: True
      from sweepLoop_delete_all[OF over Cons.prems, of "it # its"] show ?thesis
        by (intro exI[of _ 0]) (simp add: over)
    next
      case False
      from Cons.IH[OF Cons.prems, of "tot + Size it"] obtain k where
        k: "k \<le> length (cacheEntries its)"
        "dir (fst (sweepLoop B its (tot + Size it) w)) =
             Some (filter (\<lambda>e. fst e \<notin> Name ` set (drop k (cacheEntries its))) fs)"
        "snd (sweepLoop B its (tot + Size it) w)
           = tot + Size it + runningTotal (take k (cacheEntries its))"
        "\<forall>j<k. sint (tot + Size it + runningTotal (take j (cacheEntries its))) \<le> sint B"
        "k < length (cacheEntries its) \<longrightarrow>
           sint B < sint (tot + Size it + runningTotal (take k (cacheEntries its)))"
        by blast
      have "\<forall>j<Suc k. sint (tot + runningTotal (take j (it # cacheEntries its))) \<le> sint B"
      proof (intro allI impI)
        fix j assume "j < Suc k"
        then show "sint (tot + runningTotal (take j (it # cacheEntries its))) \<le> sint B"
          using False k(4) by (cases j) (auto simp: add.assoc)
      qed
      with k True False show ?thesis
        by (intro exI[of _ "Suc k"]) (simp add: add.assoc)
    qed
  qed
qed

text \<open>
  The running total wraps around, as \<^verbatim>\<open>int64\<close> does: with a budget of \<open>2^62\<close> and three
  cache entries of \<open>2^62\<close> bytes each, the total after two entries is \<open>-2^63\<close>, which is not
  above the budget, so the third entry is kept too and the total recorded is \<open>-2^62\<close>.
\<close>

lemma sweepLoop_wraps_around:
  "sweepLoop (2 ^ 62)
     [\<lparr>Name = ''a.cached'', Size = 2 ^ 62, ModTime = 30\<rparr>,
      \<lparr>Name = ''b.cached'', Size = 2 ^ 62, ModTime = 20\<rparr>,
      \<lparr>Name = ''c.cached'', Size = 2 ^ 62, ModTime = 10\<rparr>] 0 sweepWorld
   = (sweepWorld, - (2 ^ 62))"
  by code_simp

lemma Name_fileInfo [simp]: "Name (fileInfo e) = fst e"
  by (simp add: fileInfo_def)

lemma names_take_drop_disjoint:
  assumes "distinct (map Name cs)"
  shows "Name ` set (take k cs) \<inter> Name ` set (drop k cs) = {}"
proof -
  have "distinct (map Name (take k cs) @ map Name (drop k cs))"
    using assms by (simp flip: map_append)
  then show ?thesis by auto
qed

lemma sorted_cache_entries:
  assumes "distinct (map fst fs)"
      and "mset sorted_items = mset (map fileInfo fs)"
      and "cs = cacheEntries sorted_items"
  shows "distinct (map Name cs)"
    and "set cs = {it \<in> fileInfo ` set fs. HasSuffix (Name it) cachedSuffix}"
proof -
  have "mset (map Name sorted_items) = mset (map fst fs)"
    using assms(2) by (metis (no_types, lifting) Name_fileInfo map_eq_conv mset_map map_map comp_apply)
  then have "distinct (map Name sorted_items)"
    using assms(1) by (metis mset_eq_imp_distinct_iff)
  then show "distinct (map Name cs)"
    unfolding assms(3) cacheEntries_def by (rule distinct_map_filter)
  have "set sorted_items = fileInfo ` set fs"
    using assms(2) by (metis mset_eq_setD set_map)
  then show "set cs = {it \<in> fileInfo ` set fs. HasSuffix (Name it) cachedSuffix}"
    unfolding assms(3) cacheEntries_def by auto
qed

text \<open>
  When all files of the directory together hold less than \<open>2^63\<close> bytes, the sizes of a
  listing are the lengths of the files and their sum does not wrap around.
\<close>

lemma sint_Size_fileInfo:
  "length (content (snd e)) < 2 ^ 63 \<Longrightarrow>
   sint (Size (fileInfo e)) = int (length (content (snd e)))"
  by (simp add: fileInfo_def sint_len64)

lemma totalSize_fileInfo:
  assumes "sum_list (map (\<lambda>e. length (content (snd e))) fs) < 2 ^ 63"
  shows "(\<forall>e\<in>set fs. sint (Size (fileInfo e)) = int (length (content (snd e))))
       \<and> totalSize (map fileInfo fs) = int (sum_list (map (\<lambda>e. length (content (snd e))) fs))"
  using assms
proof (induction fs)
  case Nil
  then show ?case by simp
next
  case (Cons e fs)
  then have "length (content (snd e)) < 2 ^ 63"
    and "sum_list (map (\<lambda>e. length (content (snd e))) fs) < 2 ^ 63"
    by simp_all
  with Cons.IH show ?case
    by (simp add: sint_Size_fileInfo)
qed

lemma totalSize_mset:
  assumes "mset xs = mset ys"
  shows "totalSize xs = totalSize ys"
proof -
  have "totalSize zs = sum_mset (image_mset (\<lambda>it. sint (Size it)) (mset zs))" for zs
    unfolding totalSize_def by (simp only: sum_mset_sum_list [symmetric] mset_map)
  with assms show ?thesis by simp
qed

lemma sorted_sizes:
  assumes "sum_list (map (\<lambda>e. length (content (snd e))) fs) < 2 ^ 63"
      and "mset sorted_items = mset (map fileInfo fs)"
  shows "\<forall>it\<in>set sorted_items. 0 \<le> sint (Size it)"
    and "totalSize (cacheEntries sorted_items) < 2 ^ 63"
proof -
  note T = totalSize_fileInfo[OF assms(1)]
  have "set sorted_items = fileInfo ` set fs"
    using assms(2) by (metis mset_eq_setD set_map)
  with T show nn: "\<forall>it\<in>set sorted_items. 0 \<le> sint (Size it)"
    by auto
  have "totalSize sorted_items = totalSize (map fileInfo fs)"
    using assms(2) by (rule totalSize_mset)
  moreover have "totalSize (map fileInfo fs) < 2 ^ 63"
    using T assms(1) by simp
  ultimately show "totalSize (cacheEntries sorted_items) < 2 ^ 63"
    using totalSize_cacheEntries_le[OF nn] by simp
qed

lemma totalSize_take_le:
  "\<forall>it\<in>set xs. 0 \<le> sint (Size it) \<Longrightarrow> totalSize (take j xs) \<le> totalSize xs"
proof -
  assume nn: "\<forall>it\<in>set xs. 0 \<le> sint (Size it)"
  then have "0 \<le> totalSize (drop j xs)"
    by (intro totalSize_nonneg) (auto dest: in_set_dropD)
  moreover have "totalSize xs = totalSize (take j xs) + totalSize (drop j xs)"
    by (metis append_take_drop_id totalSize_simps(3))
  ultimately show ?thesis by simp
qed

lemma runningTotal_eq_totalSize:
  "\<forall>it\<in>set xs. 0 \<le> sint (Size it) \<Longrightarrow> totalSize xs < 2 ^ 63 \<Longrightarrow>
   sint (runningTotal xs) = totalSize xs"
proof (induction xs)
  case Nil
  then show ?case by simp
next
  case (Cons x xs)
  then have nn: "\<forall>it\<in>set xs. 0 \<le> sint (Size it)" and x: "0 \<le> sint (Size x)"
    by simp_all
  have rest: "0 \<le> totalSize xs"
    using nn by (rule totalSize_nonneg)
  with Cons.prems(2) x have "totalSize xs < 2 ^ 63"
    by simp
  with Cons.IH nn have eq: "sint (runningTotal xs) = totalSize xs"
    by simp
  have "sint (Size x + runningTotal xs) = sint (Size x) + sint (runningTotal xs)"
    using x rest eq Cons.prems(2) by (intro sint_add64) simp_all
  with eq show ?case by simp
qed

lemma sweepDirectory_prefix:
  assumes "dir w = Some fs" and "\<forall>n. RemoveFault n \<notin> set (faults w)"
      and "ReadDirFault \<notin> set (faults w)" and "maxSizeBytes c \<noteq> 0"
      and "cs = cacheEntries (sortSlice L (\<lambda>a b. ModTime a > ModTime b) (map fileInfo fs))"
  shows "\<exists>k\<le>length cs.
           fst (sweepDirectory L c w) = None \<and>
           dir (snd (sweepDirectory L c w)) =
             Some (filter (\<lambda>e. fst e \<notin> Name ` set (drop k cs)) fs) \<and>
           lastTotalSizeBytes (snd (sweepDirectory L c w)) = runningTotal (take k cs) \<and>
           (\<forall>j<k. sint (runningTotal (take j cs)) \<le> sint (maxSizeBytes c)) \<and>
           (k < length cs \<longrightarrow> sint (maxSizeBytes c) < sint (runningTotal (take k cs)))"
proof -
  let ?its = "sortSlice L (\<lambda>a b. ModTime a > ModTime b) (map fileInfo fs)"
  have rd: "osReadDir w = Inr (map fileInfo fs)"
    using assms(1,3) by (simp add: osReadDir_def)
  have sw: "sweepDirectory L c w =
      (None, (fst (sweepLoop (maxSizeBytes c) ?its 0 w))
                \<lparr>lastTotalSizeBytes := snd (sweepLoop (maxSizeBytes c) ?its 0 w)\<rparr>)"
    using assms(4) rd by (simp add: sweepDirectory_def Let_def)
  from sweepLoop_spec[OF assms(1,2), of ?its "maxSizeBytes c" 0] sw show ?thesis
    unfolding assms(5) by simp
qed


lemma sweepWorld_env:
  "dir sweepWorld = Some sweepFiles" "distinct (map fst sweepFiles)"
  "\<forall>n. RemoveFault n \<notin> set (faults sweepWorld)" "ReadDirFault \<notin> set (faults sweepWorld)"
  "maxSizeBytes exampleCache \<noteq> 0" "0 < sint (maxSizeBytes exampleCache)"
  "sum_list (map (\<lambda>e. length (content (snd e))) sweepFiles) < 2 ^ 63"
  "mset (sortSlice exampleLib (\<lambda>a b. ModTime a > ModTime b) (map fileInfo sweepFiles))
     = mset (map fileInfo sweepFiles)"
  "sorted_wrt (\<lambda>a b. ModTime a \<ge> ModTime b)
     (sortSlice exampleLib (\<lambda>a b. ModTime a > ModTime b) (map fileInfo sweepFiles))"
proof -
  show "dir sweepWorld = Some sweepFiles"
    by (simp add: sweepWorld_def)
  show "distinct (map fst sweepFiles)"
    by (simp add: sweepFiles_def)
  show "\<forall>n. RemoveFault n \<notin> set (faults sweepWorld)" "ReadDirFault \<notin> set (faults sweepWorld)"
    by (simp_all add: sweepWorld_def exampleWorld_def)
  show "maxSizeBytes exampleCache \<noteq> 0" "0 < sint (maxSizeBytes exampleCache)"
    by (simp_all add: exampleCache_def)
  show "sum_list (map (\<lambda>e. length (content (snd e))) sweepFiles) < 2 ^ 63"
    by (simp add: sweepFiles_def)
  show "mset (sortSlice exampleLib (\<lambda>a b. ModTime a > ModTime b) (map fileInfo sweepFiles))
     = mset (map fileInfo sweepFiles)"
    by (simp add: exampleLib_def)
  have "sorted (map (\<lambda>x. - ModTime x) (sort_key (\<lambda>x. - ModTime x) (map fileInfo sweepFiles)))"
    by (rule sorted_sort_key)
  then show "sorted_wrt (\<lambda>a b. ModTime a \<ge> ModTime b)
     (sortSlice exampleLib (\<lambda>a b. ModTime a > ModTime b) (map fileInfo sweepFiles))"
    by (simp add: exampleLib_def sorted_map)
qed

text \<open>
  C2, as the claim states it, fails. With a budget of 10 bytes and three cache files of
  8 bytes each, the sweep retains the two most recent ones: 16 bytes, more than the budget.
  The largest prefix by recency that does not exceed the budget is the most recent file
  alone.
\<close>

theorem sweepDirectory_overshoots_budget:
  "sum_list (map (\<lambda>e. int (length (content (snd e))))
      (filter (\<lambda>e. HasSuffix (fst e) cachedSuffix)
         (the (dir (snd (sweepDirectory exampleLib exampleCache sweepWorld)))))) = 16
   \<and> maxSizeBytes exampleCache = 10
   \<and> map fst (the (dir (snd (sweepDirectory exampleLib exampleCache sweepWorld))))
       = [''b.cached'', ''a.cached'', ''notes.txt'']"
  by code_simp

text \<open>
  C2, amended. Let the cache directory hold the files \<open>fs\<close> (distinct names, less than \<open>2^63\<close>
  bytes in all), let no removal and no directory listing fail, let the budget be nonzero,
  and let \<open>cs\<close> be the cache-suffixed entries in the order \<^verbatim>\<open>sort.Slice\<close> leaves them: a
  permutation of the listing, by modification time descending. Then the sweep succeeds and
  there is a prefix \<open>take k cs\<close> of the entries such that the cache files retained are
  exactly those of the prefix (files without the suffix are untouched), every retained
  entry is at least as recent as every deleted one, the retained size recorded is the
  cumulative size of the prefix, every shorter prefix has a cumulative size at or below the
  budget, and the prefix itself exceeds the budget unless it is all of \<open>cs\<close>: the retained
  files are the most recent ones, forming the shortest prefix by recency whose cumulative
  size exceeds the budget, or all files when none does.
\<close>

theorem sweepDirectory_retains_shortest_exceeding_prefix:
  assumes "dir w = Some fs" and "distinct (map fst fs)"
      and "\<forall>n. RemoveFault n \<notin> set (faults w)" and "ReadDirFault \<notin> set (faults w)"
      and "maxSizeBytes c \<noteq> 0"
      and "sum_list (map (\<lambda>e. length (content (snd e))) fs) < 2 ^ 63"
      and "mset (sortSlice L (\<lambda>a b. ModTime a > ModTime b) (map fileInfo fs))
             = mset (map fileInfo fs)"
      and "sorted_wrt (\<lambda>a b. ModTime a \<ge> ModTime b)
             (sortSlice L (\<lambda>a b. ModTime a > ModTime b) (map fileInfo fs))"
      and "cs = cacheEntries (sortSlice L (\<lambda>a b. ModTime a > ModTime b) (map fileInfo fs))"
  shows "\<exists>k\<le>length cs.
           fst (sweepDirectory L c w) = None \<and>
           dir (snd (sweepDirectory L c w)) =
             Some (filter (\<lambda>e. \<not> HasSuffix (fst e) cachedSuffix
                               \<or> fst e \<in> Name ` set (take k cs)) fs) \<and>
           (\<forall>a\<in>set (take k cs). \<forall>b\<in>set (drop k cs). ModTime b \<le> ModTime a) \<and>
           sint (lastTotalSizeBytes (snd (sweepDirectory L c w))) = totalSize (take k cs) \<and>
           (\<forall>j<k. totalSize (take j cs) \<le> sint (maxSizeBytes c)) \<and>
           (k < length cs \<longrightarrow> sint (maxSizeBytes c) < totalSize (take k cs))"
proof -
  from sweepDirectory_prefix[OF assms(1,3,4,5,9)] obtain k where k0: "k \<le> length cs"
    "fst (sweepDirectory L c w) = None"
    "dir (snd (sweepDirectory L c w)) =
             Some (filter (\<lambda>e. fst e \<notin> Name ` set (drop k cs)) fs)"
    "lastTotalSizeBytes (snd (sweepDirectory L c w)) = runningTotal (take k cs)"
    "\<forall>j<k. sint (runningTotal (take j cs)) \<le> sint (maxSizeBytes c)"
    "k < length cs \<longrightarrow> sint (maxSizeBytes c) < sint (runningTotal (take k cs))"
    by blast
  note sz = sorted_sizes[OF assms(6,7)]
  have nn: "\<forall>it\<in>set cs. 0 \<le> sint (Size it)"
    using sz(1) unfolding assms(9) cacheEntries_def by simp
  have conv: "sint (runningTotal (take j cs)) = totalSize (take j cs)" for j
  proof (rule runningTotal_eq_totalSize)
    show "\<forall>it\<in>set (take j cs). 0 \<le> sint (Size it)"
      using nn by (auto dest: in_set_takeD)
    show "totalSize (take j cs) < 2 ^ 63"
      using totalSize_take_le[OF nn, of j] sz(2) unfolding assms(9) by simp
  qed
  note k = k0(1,2,3) k0(4)[THEN arg_cong, of sint, unfolded conv] k0(5,6)[unfolded conv]
  note sc = sorted_cache_entries[OF assms(2,7,9)]
  have "sorted_wrt (\<lambda>a b. ModTime a \<ge> ModTime b) cs"
    unfolding assms(9) cacheEntries_def using assms(8) by (rule sorted_wrt_filter)
  then have "sorted_wrt (\<lambda>a b. ModTime a \<ge> ModTime b) (take k cs @ drop k cs)"
    by simp
  then have recent: "\<forall>a\<in>set (take k cs). \<forall>b\<in>set (drop k cs). ModTime b \<le> ModTime a"
    unfolding sorted_wrt_append by blast
  have "(fst e \<notin> Name ` set (drop k cs)) =
        (\<not> HasSuffix (fst e) cachedSuffix \<or> fst e \<in> Name ` set (take k cs))"
    if e: "e \<in> set fs" for e
  proof
    assume nd: "fst e \<notin> Name ` set (drop k cs)"
    show "\<not> HasSuffix (fst e) cachedSuffix \<or> fst e \<in> Name ` set (take k cs)"
    proof (cases "HasSuffix (fst e) cachedSuffix")
      case True
      then have "fileInfo e \<in> set cs"
        using e sc(2) by simp
      then have "fileInfo e \<in> set (take k cs) \<union> set (drop k cs)"
        by (metis append_take_drop_id set_append)
      with nd have "fileInfo e \<in> set (take k cs)"
        by (metis Name_fileInfo UnE imageI)
      then show ?thesis
        by (metis Name_fileInfo imageI)
    qed simp
  next
    assume "\<not> HasSuffix (fst e) cachedSuffix \<or> fst e \<in> Name ` set (take k cs)"
    then show "fst e \<notin> Name ` set (drop k cs)"
    proof
      assume nc: "\<not> HasSuffix (fst e) cachedSuffix"
      have "HasSuffix (Name it) cachedSuffix" if "it \<in> set (drop k cs)" for it
        using that sc(2) by (auto dest: in_set_dropD)
      with nc show ?thesis by auto
    next
      assume "fst e \<in> Name ` set (take k cs)"
      with names_take_drop_disjoint[OF sc(1), of k] show ?thesis by auto
    qed
  qed
  then have "filter (\<lambda>e. fst e \<notin> Name ` set (drop k cs)) fs =
             filter (\<lambda>e. \<not> HasSuffix (fst e) cachedSuffix
                               \<or> fst e \<in> Name ` set (take k cs)) fs"
    by (intro filter_cong) auto
  with k recent show ?thesis by auto
qed

theorem sweepDirectory_retains_shortest_exceeding_prefix_witness:
  "let cs = cacheEntries (sortSlice exampleLib (\<lambda>a b. ModTime a > ModTime b)
              (map fileInfo sweepFiles))
   in \<exists>k\<le>length cs.
        fst (sweepDirectory exampleLib exampleCache sweepWorld) = None \<and>
        dir (snd (sweepDirectory exampleLib exampleCache sweepWorld)) =
          Some (filter (\<lambda>e. \<not> HasSuffix (fst e) cachedSuffix
                            \<or> fst e \<in> Name ` set (take k cs)) sweepFiles) \<and>
        (\<forall>a\<in>set (take k cs). \<forall>b\<in>set (drop k cs). ModTime b \<le> ModTime a) \<and>
        sint (lastTotalSizeBytes (snd (sweepDirectory exampleLib exampleCache sweepWorld)))
          = totalSize (take k cs) \<and>
        (\<forall>j<k. totalSize (take j cs) \<le> sint (maxSizeBytes exampleCache)) \<and>
        (k < length cs \<longrightarrow> sint (maxSizeBytes exampleCache) < totalSize (take k cs))"
  unfolding Let_def
  by (rule sweepDirectory_retains_shortest_exceeding_prefix
            [OF sweepWorld_env(1,2,3,4,5,7,8,9) refl])




end
